theory Spec2Isabelle
  imports Main "HOL-Library.AList" "HOL-Library.Signed_Division"
begin

section \<open>External libraries\<close>

text \<open>
  The account service exists in several storage-specific variants. This theory embeds
  \<^item> the file-backed variant: the helpers of \<^verbatim>\<open>database.js\<close> (\<^verbatim>\<open>dbHelpers\<close>) and the
    routes of \<^verbatim>\<open>app.js\<close> that call them;
  \<^item> the in-memory variant: class \<^verbatim>\<open>SimpleDatabase\<close> of \<^verbatim>\<open>appV2.js\<close> and its routes;
  \<^item> the balance update of the remote-store variant (\<^verbatim>\<open>FirebaseDatabase.processPayment\<close>),
    whose steps are separated by \<^verbatim>\<open>await\<close>;
  \<^item> registration and login of the Java variant (\<^verbatim>\<open>Database.java\<close>).

  The libraries the code calls (bcryptjs, crypto, jsonwebtoken) are parameters of the
  model, collected in one record. Nothing is assumed about them beyond what is written
  below: every theorem holds for every choice of these functions.
  \<^item> \<open>bcrypt_digest n r s\<close>: the bcrypt digest of string \<open>s\<close> at cost \<open>n\<close> under salt \<open>r\<close>;
  \<^item> \<open>sha256_hex s\<close>: \<^verbatim>\<open>crypto.createHash("sha256").update(s).digest("hex")\<close>;
  \<^item> \<open>jwt_sign i name t\<close>: \<^verbatim>\<open>jwt.sign({userId: i, username: name}, JWT_SECRET, {expiresIn: "24h"})\<close>
    issued at second \<open>t\<close>;
  \<^item> \<open>jwt_verify tok t\<close>: whether \<^verbatim>\<open>jwt.verify(tok, JWT_SECRET)\<close> returns (rather than
    throws) at second \<open>t\<close>.
\<close>

record libs =
  bcrypt_digest :: "nat \<Rightarrow> nat \<Rightarrow> string \<Rightarrow> string"
  sha256_hex :: "string \<Rightarrow> string"
  jwt_sign :: "nat \<Rightarrow> string \<Rightarrow> nat \<Rightarrow> string"
  jwt_verify :: "string \<Rightarrow> nat \<Rightarrow> bool"

text \<open>
  A bcrypt hash string carries its cost and its salt next to the digest
  (\<^verbatim>\<open>$2a$<cost>$<salt><digest>\<close>). \<^verbatim>\<open>hashSync(s, n)\<close> with a number \<open>n\<close> draws a fresh random
  salt; the draw is the argument \<open>r\<close> of the model. \<^verbatim>\<open>compareSync(s, h)\<close> hashes \<open>s\<close> again
  with the cost and salt stored in \<open>h\<close> and compares the digests.
\<close>

datatype bcrypt_hash = BcryptHash (bh_rounds: nat) (bh_salt: nat) (bh_digest: string)

definition hashSync :: "libs \<Rightarrow> nat \<Rightarrow> string \<Rightarrow> nat \<Rightarrow> bcrypt_hash" where
  "hashSync L r s n = BcryptHash n r (bcrypt_digest L n r s)"

definition compareSync :: "libs \<Rightarrow> string \<Rightarrow> bcrypt_hash \<Rightarrow> bool" where
  "compareSync L s h = (bcrypt_digest L (bh_rounds h) (bh_salt h) s = bh_digest h)"

section \<open>The file-backed store (database.js)\<close>

text \<open>
  The records of the JSON store. Field \<^verbatim>\<open>id\<close> is \<open>uid\<close>, \<open>sid\<close>, \<open>pid\<close>; the session's and
  the payment's \<^verbatim>\<open>created_at\<close> and the payment's \<^verbatim>\<open>user_id\<close> carry a prefix. Identifiers,
  counters and clock readings (seconds since the epoch, \<^verbatim>\<open>Math.floor(Date.now() / 1000)\<close>)
  are natural numbers; a balance is an integer number of cents.
\<close>

record user =
  uid :: nat
  username :: string
  password_hash :: bcrypt_hash
  balance :: int
  failed_attempts :: nat
  locked_until :: nat
  created_at :: nat

record session =
  sid :: nat
  user_id :: nat
  token_hash :: string
  expires_at :: nat
  s_created_at :: nat

record payment =
  pid :: nat
  p_user_id :: nat
  amount :: int
  balance_before :: int
  balance_after :: int
  p_created_at :: nat

record db =
  users :: "user list"
  sessions :: "session list"
  payments :: "payment list"
  lastUserId :: nat
  lastSessionId :: nat
  lastPaymentId :: nat

definition init_db :: db where
  "init_db = \<lparr>users = [], sessions = [], payments = [],
              lastUserId = 0, lastSessionId = 0, lastPaymentId = 0\<rparr>"

text \<open>
  A thrown \<^verbatim>\<open>Error\<close>: its message and its \<^verbatim>\<open>code\<close> property (empty when the code sets
  none). A helper that can throw returns its outcome together with the store, so that
  what a failed call leaves behind is part of the result.
\<close>

datatype js_error = JsError (err_message: string) (err_code: string)

text \<open>\<^verbatim>\<open>Array.prototype.findIndex\<close>; \<open>None\<close> stands for \<open>-1\<close>.\<close>

fun findIndex :: "('a \<Rightarrow> bool) \<Rightarrow> 'a list \<Rightarrow> nat option" where
  "findIndex P [] = None"
| "findIndex P (x # xs) = (if P x then Some 0 else map_option Suc (findIndex P xs))"

text \<open>
  \<^verbatim>\<open>const x = xs.find(P); if (x) { x.f = v }\<close>: the first element that satisfies \<open>P\<close> is
  changed in place.
\<close>

fun update_first :: "('a \<Rightarrow> bool) \<Rightarrow> ('a \<Rightarrow> 'a) \<Rightarrow> 'a list \<Rightarrow> 'a list" where
  "update_first P f [] = []"
| "update_first P f (x # xs) = (if P x then f x # xs else x # update_first P f xs)"

text \<open>
  \<^verbatim>\<open>dbHelpers.createUser\<close>. \<open>r\<close> is the salt drawn by \<^verbatim>\<open>bcrypt.hashSync(password, 12)\<close>,
  \<open>now\<close> the clock. The result is \<^verbatim>\<open>{id, username}\<close>.
\<close>

definition createUser ::
  "libs \<Rightarrow> nat \<Rightarrow> nat \<Rightarrow> db \<Rightarrow> string \<Rightarrow> string \<Rightarrow> (js_error + nat \<times> string) \<times> db" where
  "createUser L r now d name pw =
     (case find (\<lambda>u. username u = name) (users d) of
        Some existingUser \<Rightarrow>
          (Inl (JsError ''Username already exists'' ''CONSTRAINT_UNIQUE''), d)
      | None \<Rightarrow>
          let passwordHash = hashSync L r pw 12;
              newId = lastUserId d + 1;
              u = \<lparr>uid = newId, username = name, password_hash = passwordHash,
                   balance = 800, failed_attempts = 0, locked_until = 0,
                   created_at = now\<rparr>
          in (Inr (uid u, username u),
              d\<lparr>users := users d @ [u], lastUserId := newId\<rparr>))"

definition findUser :: "db \<Rightarrow> string \<Rightarrow> user option" where
  "findUser d name = find (\<lambda>u. username u = name) (users d)"

definition updateFailedAttempts :: "db \<Rightarrow> nat \<Rightarrow> nat \<Rightarrow> nat \<Rightarrow> db" where
  "updateFailedAttempts d userId attempts lockUntil =
     d\<lparr>users := update_first (\<lambda>u. uid u = userId)
                   (\<lambda>u. u\<lparr>failed_attempts := attempts, locked_until := lockUntil\<rparr>)
                   (users d)\<rparr>"

definition saveSession :: "nat \<Rightarrow> db \<Rightarrow> nat \<Rightarrow> string \<Rightarrow> nat \<Rightarrow> db" where
  "saveSession now d userId tokenHash expiresAt =
     (let newId = lastSessionId d + 1;
          s = \<lparr>sid = newId, user_id = userId, token_hash = tokenHash,
               expires_at = expiresAt, s_created_at = now\<rparr>
      in d\<lparr>sessions := sessions d @ [s], lastSessionId := newId\<rparr>)"

text \<open>
  \<^verbatim>\<open>dbHelpers.validateSession\<close>: \<open>None\<close> is \<^verbatim>\<open>null\<close>; the object
  \<^verbatim>\<open>{...session, username, balance}\<close> is the session with the two fields of its user.
\<close>

definition validateSession :: "nat \<Rightarrow> db \<Rightarrow> string \<Rightarrow> (session \<times> string \<times> int) option" where
  "validateSession now d tokenHash =
     (case find (\<lambda>s. token_hash s = tokenHash \<and> expires_at s > now) (sessions d) of
        None \<Rightarrow> None
      | Some s \<Rightarrow>
          (case find (\<lambda>u. uid u = user_id s) (users d) of
             None \<Rightarrow> None
           | Some u \<Rightarrow> Some (s, username u, balance u)))"

definition removeSession :: "db \<Rightarrow> string \<Rightarrow> db" where
  "removeSession d tokenHash =
     d\<lparr>sessions := filter (\<lambda>s. token_hash s \<noteq> tokenHash) (sessions d)\<rparr>"

text \<open>
  \<^verbatim>\<open>dbHelpers.processPayment\<close>. The source returns the amount and the two balances divided
  by 100 (dollars, for display); the receipt of the model keeps the cents.
\<close>

record receipt =
  paymentId :: nat
  r_amount :: int
  r_balanceBefore :: int
  r_balanceAfter :: int

definition processPayment :: "nat \<Rightarrow> db \<Rightarrow> nat \<Rightarrow> (js_error + receipt) \<times> db" where
  "processPayment now d userId =
     (case findIndex (\<lambda>u. uid u = userId) (users d) of
        None \<Rightarrow> (Inl (JsError ''User not found'' []), d)
      | Some userIndex \<Rightarrow>
          let u = users d ! userIndex;
              currentBalance = balance u;
              paymentAmount = 110
          in if currentBalance < paymentAmount
             then (Inl (JsError ''Insufficient funds'' []), d)
             else
               let newBalance = currentBalance - paymentAmount;
                   newId = lastPaymentId d + 1;
                   p = \<lparr>pid = newId, p_user_id = userId, amount = paymentAmount,
                        balance_before = currentBalance, balance_after = newBalance,
                        p_created_at = now\<rparr>
               in (Inr \<lparr>paymentId = pid p, r_amount = paymentAmount,
                         r_balanceBefore = currentBalance, r_balanceAfter = newBalance\<rparr>,
                   d\<lparr>users := (users d)[userIndex := u\<lparr>balance := newBalance\<rparr>],
                     payments := payments d @ [p], lastPaymentId := newId\<rparr>))"

definition cleanupExpiredSessions :: "nat \<Rightarrow> db \<Rightarrow> db" where
  "cleanupExpiredSessions now d = d\<lparr>sessions := filter (\<lambda>s. expires_at s > now) (sessions d)\<rparr>"


section \<open>The routes of the file-backed variant (app.js)\<close>

text \<open>
  A route answers with a JSON body. An error answer is its HTTP status and the text of
  its \<^verbatim>\<open>error\<close> field. A handler returns its answer and the store it leaves.

  Every handler runs synchronously. A handler and the helpers it calls each read the
  clock; their readings differ only in the \<^verbatim>\<open>created_at\<close> stamps, which nothing reads
  back, and the model gives a request the one reading \<open>now\<close>. The bearer token
  is the second word of the \<^verbatim>\<open>Authorization\<close> header; a request without one is modelled by
  the empty token, and a missing body field by the empty string (both are falsy in
  JavaScript). The rate limiter in front of \<^verbatim>\<open>/auth/login\<close> is middleware outside the
  handler and not part of the model.
\<close>

type_synonym http_error = "nat \<times> string"

definition hashToken :: "libs \<Rightarrow> string \<Rightarrow> string" where
  "hashToken L token = sha256_hex L token"

text \<open>
  \<^verbatim>\<open>authenticateToken\<close>: on success \<^verbatim>\<open>req.user\<close> is \<^verbatim>\<open>{id, username, balance}\<close>; the source
  stores the balance divided by 100, the model keeps the cents.
\<close>

definition authenticateToken :: "libs \<Rightarrow> nat \<Rightarrow> db \<Rightarrow> string \<Rightarrow> http_error + nat \<times> string \<times> int" where
  "authenticateToken L now d token =
     (if token = [] then Inl (401, ''Access token required'')
      else if \<not> jwt_verify L token now then Inl (403, ''Invalid token'')
      else
        (case validateSession now d (hashToken L token) of
           None \<Rightarrow> Inl (403, ''Invalid or expired token'')
         | Some (s, name, bal) \<Rightarrow> Inr (user_id s, name, bal)))"

text \<open>
  \<^verbatim>\<open>POST /auth/login\<close>. The success answer carries the token and
  \<^verbatim>\<open>user: {id, username, balance}\<close>.
\<close>

definition login ::
  "libs \<Rightarrow> nat \<Rightarrow> db \<Rightarrow> string \<Rightarrow> string \<Rightarrow> (http_error + string \<times> nat \<times> string \<times> int) \<times> db" where
  "login L now d name pw =
     (if name = [] \<or> pw = [] then (Inl (400, ''Username and password required''), d)
      else
        (case findUser d name of
           None \<Rightarrow> (Inl (401, ''Invalid credentials''), d)
         | Some u \<Rightarrow>
             if locked_until u > now
             then (Inl (423, ''Account temporarily locked due to failed login attempts''), d)
             else if \<not> compareSync L pw (password_hash u)
             then
               let newAttempts = failed_attempts u + 1;
                   lockUntil = (if newAttempts \<ge> 5 then now + 30 * 60 else 0)
               in (Inl (401, ''Invalid credentials''),
                   updateFailedAttempts d (uid u) newAttempts lockUntil)
             else
               let d1 = (if failed_attempts u > 0 then updateFailedAttempts d (uid u) 0 0 else d);
                   token = jwt_sign L (uid u) (username u) now;
                   tokenHash = hashToken L token;
                   expiresAt = now + 24 * 60 * 60;
                   d2 = saveSession now d1 (uid u) tokenHash expiresAt
               in (Inr (token, uid u, username u, balance u), d2)))"

text \<open>\<^verbatim>\<open>POST /auth/logout\<close>, behind \<^verbatim>\<open>authenticateToken\<close>.\<close>

definition logout :: "libs \<Rightarrow> nat \<Rightarrow> db \<Rightarrow> string \<Rightarrow> (http_error + string) \<times> db" where
  "logout L now d token =
     (case authenticateToken L now d token of
        Inl e \<Rightarrow> (Inl e, d)
      | Inr req_user \<Rightarrow> (Inr ''Logout successful'', removeSession d (hashToken L token)))"

text \<open>\<^verbatim>\<open>POST /payments\<close>, behind \<^verbatim>\<open>authenticateToken\<close>.\<close>

definition payments_route :: "libs \<Rightarrow> nat \<Rightarrow> db \<Rightarrow> string \<Rightarrow> (http_error + receipt) \<times> db" where
  "payments_route L now d token =
     (case authenticateToken L now d token of
        Inl e \<Rightarrow> (Inl e, d)
      | Inr (userId, name, bal) \<Rightarrow>
          (case processPayment now d userId of
             (Inr r, d') \<Rightarrow> (Inr r, d')
           | (Inl e, d') \<Rightarrow>
               if err_message e = ''Insufficient funds''
               then (Inl (400, ''Insufficient funds''), d')
               else (Inl (500, ''Payment processing failed''), d')))"

text \<open>
  \<^verbatim>\<open>POST /auth/register\<close>; \<open>r\<close> is the salt that \<^verbatim>\<open>createUser\<close> draws. The success answer
  (status 201) carries \<^verbatim>\<open>{id, username}\<close> of the new user, and the constant balance 8.0.
\<close>

definition register ::
  "libs \<Rightarrow> nat \<Rightarrow> nat \<Rightarrow> db \<Rightarrow> string \<Rightarrow> string \<Rightarrow> (http_error + nat \<times> string) \<times> db" where
  "register L r now d name pw =
     (if name = [] \<or> pw = [] then (Inl (400, ''Username and password required''), d)
      else if length pw < 6 then (Inl (400, ''Password must be at least 6 characters''), d)
      else
        (case createUser L r now d name pw of
           (Inr created, d') \<Rightarrow> (Inr created, d')
         | (Inl e, d') \<Rightarrow>
             if err_code e = ''CONSTRAINT_UNIQUE''
             then (Inl (409, ''Username already exists''), d')
             else (Inl (500, ''Internal server error''), d')))"

text \<open>\<^verbatim>\<open>GET /me\<close>, behind \<^verbatim>\<open>authenticateToken\<close>.\<close>

definition me :: "libs \<Rightarrow> nat \<Rightarrow> db \<Rightarrow> string \<Rightarrow> http_error + nat \<times> string \<times> int" where
  "me L now d token = authenticateToken L now d token"

text \<open>
  The requests of the API, and the store after a sequence of them: each request comes
  with the clock at which its handler runs.
\<close>

datatype request =
    Register nat string string
  | Login string string
  | Logout string
  | Payments string
  | Me string

fun handle :: "libs \<Rightarrow> nat \<Rightarrow> request \<Rightarrow> db \<Rightarrow> db" where
  "handle L now (Register r name pw) d = snd (register L r now d name pw)"
| "handle L now (Login name pw) d = snd (login L now d name pw)"
| "handle L now (Logout token) d = snd (logout L now d token)"
| "handle L now (Payments token) d = snd (payments_route L now d token)"
| "handle L now (Me token) d = d"

fun run_requests :: "libs \<Rightarrow> (nat \<times> request) list \<Rightarrow> db \<Rightarrow> db" where
  "run_requests L [] d = d"
| "run_requests L ((now, q) # qs) d = run_requests L qs (handle L now q d)"

text \<open>
  The calls of \<^verbatim>\<open>dbHelpers\<close> that write the store, and the store after a sequence of them.
\<close>

datatype db_call =
    CreateUser nat nat string string
  | UpdateFailedAttempts nat nat nat
  | SaveSession nat nat string nat
  | RemoveSession string
  | ProcessPayment nat nat
  | CleanupExpiredSessions nat

fun apply_call :: "libs \<Rightarrow> db_call \<Rightarrow> db \<Rightarrow> db" where
  "apply_call L (CreateUser r now name pw) d = snd (createUser L r now d name pw)"
| "apply_call L (UpdateFailedAttempts userId attempts lockUntil) d =
     updateFailedAttempts d userId attempts lockUntil"
| "apply_call L (SaveSession now userId tokenHash expiresAt) d =
     saveSession now d userId tokenHash expiresAt"
| "apply_call L (RemoveSession tokenHash) d = removeSession d tokenHash"
| "apply_call L (ProcessPayment now userId) d = snd (processPayment now d userId)"
| "apply_call L (CleanupExpiredSessions now) d = cleanupExpiredSessions now d"

text \<open>
  \<open>charge_times n\<close>: \<open>n\<close> calls of \<^verbatim>\<open>processPayment\<close> for one user. The helper has no
  \<^verbatim>\<open>await\<close>, so calls made at the same time run one after the other, each to its end.
\<close>

fun charge_times :: "nat \<Rightarrow> nat \<Rightarrow> db \<Rightarrow> nat \<Rightarrow> (js_error + receipt) list \<times> db" where
  "charge_times 0 now d userId = ([], d)"
| "charge_times (Suc n) now d userId =
     (case processPayment now d userId of
        (res, d') \<Rightarrow> (case charge_times n now d' userId of (rs, d'') \<Rightarrow> (res # rs, d'')))"


section \<open>The in-memory variant (appV2.js)\<close>

text \<open>
  Class \<^verbatim>\<open>SimpleDatabase\<close>. Its records have the fields of the source with the prefix
  \<open>v2_\<close> where the name is taken already. Both the password hash and the token hash are
  bcrypt hashes here: \<^verbatim>\<open>hashPassword\<close> is \<^verbatim>\<open>bcryptjs.hashSync(password, 12)\<close>, and every
  call of it draws a salt.
\<close>

record v2_user =
  v2_id :: nat
  v2_username :: string
  passwordHash :: bcrypt_hash
  v2_balance :: int
  failedAttempts :: nat
  lockedUntil :: nat

record v2_session =
  v2_sid :: nat
  userId :: nat
  tokenHash :: bcrypt_hash
  expiresAt :: nat

record v2_payment =
  v2_pid :: nat
  v2_p_userId :: nat
  v2_amount :: int
  balanceBefore :: int
  balanceAfter :: int
  timestamp :: nat

record simple_db =
  v2_users :: "v2_user list"
  v2_sessions :: "v2_session list"
  v2_payments :: "v2_payment list"
  nextUserId :: nat
  nextSessionId :: nat
  nextPaymentId :: nat

definition v2_init :: simple_db where
  "v2_init = \<lparr>v2_users = [], v2_sessions = [], v2_payments = [],
              nextUserId = 1, nextSessionId = 1, nextPaymentId = 1\<rparr>"

definition hashPassword :: "libs \<Rightarrow> nat \<Rightarrow> string \<Rightarrow> bcrypt_hash" where
  "hashPassword L r password = hashSync L r password 12"

text \<open>
  The decimal digits of a number, as a template literal prints an id or a clock reading.
\<close>

fun decimal :: "nat \<Rightarrow> string" where
  "decimal n =
     (if n < 10 then [''0123456789'' ! n]
      else decimal (n div 10) @ [''0123456789'' ! (n mod 10)])"

declare decimal.simps [simp del]

text \<open>
  The methods return a string, \<^verbatim>\<open>"ERROR: <text>"\<close> or \<^verbatim>\<open>"SUCCESS: <data>"\<close>. The model
  returns \<open>Inl\<close> of the text or \<open>Inr\<close> of the data, next to the store the call leaves;
  a balance in the data is in cents, where the string prints it in dollars.

  \<^verbatim>\<open>createUser\<close>: \<open>r\<close> is the salt of \<^verbatim>\<open>hashPassword(password)\<close>; the data is the new id.
\<close>

definition v2_createUser ::
  "libs \<Rightarrow> nat \<Rightarrow> simple_db \<Rightarrow> string \<Rightarrow> string \<Rightarrow> (string + nat) \<times> simple_db" where
  "v2_createUser L r d name pw =
     (case find (\<lambda>u. v2_username u = name) (v2_users d) of
        Some existingUser \<Rightarrow> (Inl ''User already exists'', d)
      | None \<Rightarrow>
          let u = \<lparr>v2_id = nextUserId d, v2_username = name,
                   passwordHash = hashPassword L r pw, v2_balance = 800,
                   failedAttempts = 0, lockedUntil = 0\<rparr>
          in (Inr (v2_id u),
              d\<lparr>v2_users := v2_users d @ [u], nextUserId := nextUserId d + 1\<rparr>))"

text \<open>
  \<^verbatim>\<open>loginUser\<close>: \<open>ms1\<close> is \<^verbatim>\<open>Date.now()\<close> (milliseconds) where the lock is checked, \<open>ms2\<close>
  the later \<^verbatim>\<open>Date.now()\<close> that goes into the token; \<open>r1\<close> is the salt of
  \<^verbatim>\<open>hashPassword(password)\<close>, \<open>r2\<close> the salt of \<^verbatim>\<open>hashPassword(token)\<close>. The data is the
  token and the balance.
\<close>

definition v2_token :: "nat \<Rightarrow> nat \<Rightarrow> string" where
  "v2_token i ms = ''token_'' @ decimal i @ ''_'' @ decimal ms"

definition v2_loginUser ::
  "libs \<Rightarrow> nat \<Rightarrow> nat \<Rightarrow> nat \<Rightarrow> nat \<Rightarrow> simple_db \<Rightarrow> string \<Rightarrow> string
     \<Rightarrow> (string + string \<times> int) \<times> simple_db" where
  "v2_loginUser L r1 r2 ms1 ms2 d name pw =
     (case find (\<lambda>u. v2_username u = name) (v2_users d) of
        None \<Rightarrow> (Inl ''Invalid credentials'', d)
      | Some u \<Rightarrow>
          let now = ms1 div 1000 in
          if lockedUntil u > now then (Inl ''Account locked'', d)
          else if passwordHash u \<noteq> hashPassword L r1 pw
          then
            let n = failedAttempts u + 1;
                bump = (\<lambda>x. if n \<ge> 5 then x\<lparr>failedAttempts := n, lockedUntil := now + 30 * 60\<rparr>
                            else x\<lparr>failedAttempts := n\<rparr>)
            in (Inl ''Invalid credentials'',
                d\<lparr>v2_users := update_first (\<lambda>x. v2_username x = name) bump (v2_users d)\<rparr>)
          else
            let reset = (\<lambda>x. x\<lparr>failedAttempts := 0, lockedUntil := 0\<rparr>);
                token = v2_token (v2_id u) ms2;
                s = \<lparr>v2_sid = nextSessionId d, userId = v2_id u,
                     tokenHash = hashPassword L r2 token, expiresAt = now + 24 * 60 * 60\<rparr>
            in (Inr (token, v2_balance u),
                d\<lparr>v2_users := update_first (\<lambda>x. v2_username x = name) reset (v2_users d),
                  v2_sessions := v2_sessions d @ [s],
                  nextSessionId := nextSessionId d + 1\<rparr>))"

text \<open>
  \<^verbatim>\<open>validateSession\<close>: \<open>r\<close> is the salt of \<^verbatim>\<open>hashPassword(token)\<close>, \<open>ms\<close> the clock. The data
  is the username and the balance.
\<close>

definition v2_validateSession ::
  "libs \<Rightarrow> nat \<Rightarrow> nat \<Rightarrow> simple_db \<Rightarrow> string \<Rightarrow> string + string \<times> int" where
  "v2_validateSession L r ms d token =
     (let h = hashPassword L r token; now = ms div 1000 in
      case find (\<lambda>s. tokenHash s = h \<and> expiresAt s > now) (v2_sessions d) of
        None \<Rightarrow> Inl ''Invalid token''
      | Some s \<Rightarrow>
          (case find (\<lambda>u. v2_id u = userId s) (v2_users d) of
             None \<Rightarrow> Inl ''User not found''
           | Some u \<Rightarrow> Inr (v2_username u, v2_balance u)))"

text \<open>\<^verbatim>\<open>processPayment\<close>: the data is the new balance.\<close>

definition v2_processPayment ::
  "libs \<Rightarrow> nat \<Rightarrow> nat \<Rightarrow> simple_db \<Rightarrow> string \<Rightarrow> (string + int) \<times> simple_db" where
  "v2_processPayment L r ms d token =
     (let h = hashPassword L r token; now = ms div 1000 in
      case find (\<lambda>s. tokenHash s = h \<and> expiresAt s > now) (v2_sessions d) of
        None \<Rightarrow> (Inl ''Invalid token'', d)
      | Some s \<Rightarrow>
          (case find (\<lambda>u. v2_id u = userId s) (v2_users d) of
             None \<Rightarrow> (Inl ''User not found'', d)
           | Some u \<Rightarrow>
               let paymentAmount = 110 in
               if v2_balance u < paymentAmount then (Inl ''Insufficient funds'', d)
               else
                 let before = v2_balance u;
                     after = v2_balance u - paymentAmount;
                     p = \<lparr>v2_pid = nextPaymentId d, v2_p_userId = v2_id u,
                          v2_amount = paymentAmount, balanceBefore = before,
                          balanceAfter = after, timestamp = now\<rparr>
                 in (Inr after,
                     d\<lparr>v2_users := update_first (\<lambda>x. v2_id x = userId s)
                                       (\<lambda>x. x\<lparr>v2_balance := after\<rparr>) (v2_users d),
                       v2_payments := v2_payments d @ [p],
                       nextPaymentId := nextPaymentId d + 1\<rparr>)))"

definition v2_logout :: "libs \<Rightarrow> nat \<Rightarrow> simple_db \<Rightarrow> string \<Rightarrow> (string + string) \<times> simple_db" where
  "v2_logout L r d token =
     (let h = hashPassword L r token
      in (Inr ''Logged out'', d\<lparr>v2_sessions := filter (\<lambda>s. tokenHash s \<noteq> h) (v2_sessions d)\<rparr>))"

text \<open>
  The route \<^verbatim>\<open>POST /register\<close> of appV2.js: an \<^verbatim>\<open>ERROR:\<close> result is answered with status
  400 and the text of the error.
\<close>

definition v2_register ::
  "libs \<Rightarrow> nat \<Rightarrow> simple_db \<Rightarrow> string \<Rightarrow> string \<Rightarrow> (http_error + nat) \<times> simple_db" where
  "v2_register L r d name pw =
     (if name = [] \<or> pw = [] then (Inl (400, ''Username and password required''), d)
      else
        (case v2_createUser L r d name pw of
           (Inl e, d') \<Rightarrow> (Inl (400, e), d')
         | (Inr i, d') \<Rightarrow> (Inr i, d')))"


section \<open>The balance update of the remote-store variant\<close>

text \<open>
  \<^verbatim>\<open>FirebaseDatabase.processPayment\<close> is an \<^verbatim>\<open>async\<close> method: at every \<^verbatim>\<open>await\<close> it hands
  control back, and other requests run before it resumes. The model covers the method
  from its read of the user (\<^verbatim>\<open>await userRef.once("value")\<close>) to its return: the read,
  the funds check, the write of the balance and the write of the payment. What comes
  before is left out: the session lookup, a check that the user exists and a first
  funds check on the balance that the lookup returned. These write nothing to a user
  or a payment, and a call that fails one of them returns before the part modelled
  here; the call of the model starts with the user id that the lookup found.

  The store keeps users and payments under their keys. \<^verbatim>\<open>createdAt\<close>, which the server
  fills in, is not part of the records.
\<close>

record fb_user =
  fb_id :: string
  fb_username :: string
  fb_passwordHash :: bcrypt_hash
  fb_balance :: int
  fb_failedAttempts :: nat
  fb_lockedUntil :: nat

record fb_payment =
  fp_id :: string
  fp_userId :: string
  fp_amount :: int
  fp_balanceBefore :: int
  fp_balanceAfter :: int

record fb_store =
  fb_users :: "(string \<times> fb_user) list"
  fb_payments :: "(string \<times> fb_payment) list"

text \<open>
  What a call returns: \<^verbatim>\<open>{success: false, error}\<close> or
  \<^verbatim>\<open>{success: true, payment: {id, amount, balanceBefore, balanceAfter}}\<close> (the amounts in
  cents here).
\<close>

datatype fb_result = FbError string | FbPayment string int int int

text \<open>
  Where a call stands. \<open>ReadUser i k\<close>: about to read user \<open>i\<close>; \<open>k\<close> is the key that
  \<^verbatim>\<open>generateId()\<close> will give the payment. \<open>UpdateBalance i k b b'\<close>: it has read balance \<open>b\<close>,
  found it sufficient, and is about to write \<open>b'\<close>. \<open>SetPayment i k b b'\<close>: the balance is
  written, the payment record is not yet. \<open>Returned res\<close>: the call is over.
\<close>

datatype fb_call =
    ReadUser string string
  | UpdateBalance string string int int
  | SetPayment string string int int
  | Returned fb_result

text \<open>
  One step of one call, to its next \<^verbatim>\<open>await\<close>. \<^verbatim>\<open>userRef.update({balance: b'})\<close> changes
  the balance of the stored user; no step removes a user, so the user that the call has
  read is still stored when it writes. \<^verbatim>\<open>paymentsRef.child(k).set(p)\<close> stores \<open>p\<close> under key
  \<open>k\<close>, over what the key held.
\<close>

fun fb_step :: "fb_store \<Rightarrow> fb_call \<Rightarrow> fb_store \<times> fb_call" where
  "fb_step st (ReadUser i k) =
     (case map_of (fb_users st) i of
        None \<Rightarrow> (st, Returned (FbError ''User not found''))
      | Some currentUserData \<Rightarrow>
          if fb_balance currentUserData < 110
          then (st, Returned (FbError ''Insufficient funds''))
          else (st, UpdateBalance i k (fb_balance currentUserData)
                      (fb_balance currentUserData - 110)))"
| "fb_step st (UpdateBalance i k b b') =
     (st\<lparr>fb_users := AList.map_entry i (\<lambda>u. u\<lparr>fb_balance := b'\<rparr>) (fb_users st)\<rparr>,
      SetPayment i k b b')"
| "fb_step st (SetPayment i k b b') =
     (st\<lparr>fb_payments :=
           AList.update k \<lparr>fp_id = k, fp_userId = i, fp_amount = 110,
                           fp_balanceBefore = b, fp_balanceAfter = b'\<rparr> (fb_payments st)\<rparr>,
      Returned (FbPayment k 110 b b'))"
| "fb_step st (Returned res) = (st, Returned res)"

text \<open>
  Several calls in flight. A schedule names, step by step, the call that runs next.
\<close>

fun fb_run :: "nat list \<Rightarrow> fb_store \<times> fb_call list \<Rightarrow> fb_store \<times> fb_call list" where
  "fb_run [] c = c"
| "fb_run (i # sched) (st, calls) =
     (if i < length calls
      then (case fb_step st (calls ! i) of (st', c') \<Rightarrow> fb_run sched (st', calls[i := c']))
      else fb_run sched (st, calls))"

section \<open>The Java variant (Database.java)\<close>

text \<open>
  \<^verbatim>\<open>Database.createUser\<close> and \<^verbatim>\<open>Database.loginUser\<close> with the classes they use. A Java
  \<^verbatim>\<open>int\<close> or \<^verbatim>\<open>long\<close> is an integer here, and every addition wraps around as the type
  does. \<^verbatim>\<open>hashPassword\<close> is the SHA-256 digest in hexadecimal, the same for every call.
  The methods return strings as in the in-memory variant, and are modelled alike.
\<close>

definition jint :: "int \<Rightarrow> int" where
  "jint x = (x + 2 ^ 31) mod 2 ^ 32 - 2 ^ 31"

definition jlong :: "int \<Rightarrow> int" where
  "jlong x = (x + 2 ^ 63) mod 2 ^ 64 - 2 ^ 63"

record j_user =
  j_id :: int
  j_username :: string
  j_passwordHash :: string
  j_balance :: int
  j_failedAttempts :: int
  j_lockedUntil :: int

record j_session =
  j_sid :: int
  j_userId :: int
  j_tokenHash :: string
  j_expiresAt :: int

record java_db =
  j_users :: "j_user list"
  j_sessions :: "j_session list"
  j_nextUserId :: int
  j_nextSessionId :: int

definition j_init :: java_db where
  "j_init = \<lparr>j_users = [], j_sessions = [], j_nextUserId = 1, j_nextSessionId = 1\<rparr>"

definition j_hashPassword :: "libs \<Rightarrow> string \<Rightarrow> string" where
  "j_hashPassword L password = sha256_hex L password"

text \<open>A number in a string concatenation: its decimal digits, after a minus sign if negative.\<close>

definition java_str :: "int \<Rightarrow> string" where
  "java_str i = (if i < 0 then ''-'' @ decimal (nat (- i)) else decimal (nat i))"

definition j_createUser :: "libs \<Rightarrow> java_db \<Rightarrow> string \<Rightarrow> string \<Rightarrow> (string + int) \<times> java_db" where
  "j_createUser L d name pw =
     (case find (\<lambda>u. j_username u = name) (j_users d) of
        Some u \<Rightarrow> (Inl ''User already exists'', d)
      | None \<Rightarrow>
          let newUser = \<lparr>j_id = j_nextUserId d, j_username = name,
                         j_passwordHash = j_hashPassword L pw, j_balance = 800,
                         j_failedAttempts = 0, j_lockedUntil = 0\<rparr>
          in (Inr (j_id newUser),
              d\<lparr>j_users := j_users d @ [newUser], j_nextUserId := jint (j_nextUserId d + 1)\<rparr>))"

text \<open>
  \<open>ms1\<close> and \<open>ms2\<close> are the two readings of \<^verbatim>\<open>System.currentTimeMillis()\<close>: the first is
  divided by 1000 for the lock check, the second goes into the token.
\<close>

definition j_loginUser ::
  "libs \<Rightarrow> int \<Rightarrow> int \<Rightarrow> java_db \<Rightarrow> string \<Rightarrow> string \<Rightarrow> (string + string \<times> int) \<times> java_db" where
  "j_loginUser L ms1 ms2 d name pw =
     (case find (\<lambda>u. j_username u = name) (j_users d) of
        None \<Rightarrow> (Inl ''Invalid credentials'', d)
      | Some u \<Rightarrow>
          let now = ms1 sdiv 1000 in
          if j_lockedUntil u > now then (Inl ''Account locked'', d)
          else if j_passwordHash u \<noteq> j_hashPassword L pw
          then
            let n = jint (j_failedAttempts u + 1);
                bump = (\<lambda>x. if n \<ge> 5
                            then x\<lparr>j_failedAttempts := n, j_lockedUntil := jlong (now + 30 * 60)\<rparr>
                            else x\<lparr>j_failedAttempts := n\<rparr>)
            in (Inl ''Invalid credentials'',
                d\<lparr>j_users := update_first (\<lambda>x. j_username x = name) bump (j_users d)\<rparr>)
          else
            let reset = (\<lambda>x. x\<lparr>j_failedAttempts := 0, j_lockedUntil := 0\<rparr>);
                token = ''token_'' @ java_str (j_id u) @ ''_'' @ java_str ms2;
                s = \<lparr>j_sid = j_nextSessionId d, j_userId = j_id u,
                     j_tokenHash = j_hashPassword L token,
                     j_expiresAt = jlong (now + 24 * 60 * 60)\<rparr>
            in (Inr (token, j_balance u),
                d\<lparr>j_users := update_first (\<lambda>x. j_username x = name) reset (j_users d),
                  j_sessions := j_sessions d @ [s],
                  j_nextSessionId := jint (j_nextSessionId d + 1)\<rparr>))"

section \<open>Sample values\<close>

text \<open>
  An instance of the libraries, to run the model on concrete requests: the digest of a
  string is the string, and every token verifies.
\<close>

definition sample_libs :: libs where
  "sample_libs = \<lparr>bcrypt_digest = (\<lambda>n r s. s), sha256_hex = (\<lambda>s. s),
                  jwt_sign = (\<lambda>i name t. ''jwt.'' @ name), jwt_verify = (\<lambda>tok t. True)\<rparr>"

definition alice :: user where
  "alice = \<lparr>uid = 1, username = ''alice'',
            password_hash = BcryptHash 12 7 ''secret1'', balance = 800,
            failed_attempts = 0, locked_until = 0, created_at = 1000\<rparr>"

definition alice_db :: db where
  "alice_db = \<lparr>users = [alice], sessions = [], payments = [],
               lastUserId = 1, lastSessionId = 0, lastPaymentId = 0\<rparr>"

text \<open>
  Five wrong passwords for \<open>alice\<close>, and the store they leave.
\<close>

definition five_wrong_logins :: "(nat \<times> request) list" where
  "five_wrong_logins =
     [(2000, Login ''alice'' ''wrong1''), (2001, Login ''alice'' ''wrong2''),
      (2002, Login ''alice'' ''wrong3''), (2003, Login ''alice'' ''wrong4''),
      (2004, Login ''alice'' ''wrong5'')]"

definition locked_alice :: user where
  "locked_alice = alice\<lparr>failed_attempts := 5, locked_until := 3804\<rparr>"

definition locked_db :: db where
  "locked_db = alice_db\<lparr>users := [locked_alice]\<rparr>"

text \<open>The store after \<open>alice\<close> has logged in at second 2000.\<close>

definition session_db :: db where
  "session_db = alice_db\<lparr>sessions := [\<lparr>sid = 1, user_id = 1, token_hash = ''jwt.alice'',
                                        expires_at = 88400, s_created_at = 2000\<rparr>],
                          lastSessionId := 1\<rparr>"

text \<open>The stores of the Java and the in-memory variant after \<open>alice\<close> has registered.\<close>

definition j_alice_db :: java_db where
  "j_alice_db = \<lparr>j_users = [\<lparr>j_id = 1, j_username = ''alice'', j_passwordHash = ''secret1'',
                               j_balance = 800, j_failedAttempts = 0, j_lockedUntil = 0\<rparr>],
                  j_sessions = [], j_nextUserId = 2, j_nextSessionId = 1\<rparr>"

definition v2_alice :: v2_user where
  "v2_alice = \<lparr>v2_id = 1, v2_username = ''alice'', passwordHash = BcryptHash 12 7 ''secret1'',
               v2_balance = 800, failedAttempts = 0, lockedUntil = 0\<rparr>"

definition v2_alice_db :: simple_db where
  "v2_alice_db = v2_init\<lparr>v2_users := [v2_alice], nextUserId := 2\<rparr>"

text \<open>
  The store of the in-memory variant after a login of \<open>alice\<close> at 1700000000000 ms whose
  token was hashed under salt 9.
\<close>

definition v2_session_db :: simple_db where
  "v2_session_db =
     v2_alice_db\<lparr>v2_sessions := [\<lparr>v2_sid = 1, userId = 1,
                                      tokenHash = BcryptHash 12 9 ''token_1_1700000000250'',
                                      expiresAt = 1700086400\<rparr>],
                  nextSessionId := 2\<rparr>"

text \<open>A store of the remote-store variant: one user, whose balance is 110.\<close>

definition fb_alice :: fb_user where
  "fb_alice = \<lparr>fb_id = ''u1'', fb_username = ''alice'',
               fb_passwordHash = BcryptHash 12 7 ''secret1'', fb_balance = 110,
               fb_failedAttempts = 0, fb_lockedUntil = 0\<rparr>"

definition fb_sample :: fb_store where
  "fb_sample = \<lparr>fb_users = [(''u1'', fb_alice)], fb_payments = []\<rparr>"

section \<open>Invariants of the file-backed store\<close>

text \<open>
  What every store built by \<^verbatim>\<open>dbHelpers\<close> satisfies: usernames and ids are unique, and no
  id is above the counter.
\<close>

definition db_inv :: "db \<Rightarrow> bool" where
  "db_inv d \<longleftrightarrow>
     distinct (map username (users d)) \<and> distinct (map uid (users d)) \<and>
     (\<forall>u \<in> set (users d). uid u \<le> lastUserId d)"

text \<open>
  What every store built by the routes satisfies in addition: an account that carries a
  lock time has at least five failed attempts on record, every session belongs to a
  user of the store, and no balance is negative.
\<close>

definition api_inv :: "db \<Rightarrow> bool" where
  "api_inv d \<longleftrightarrow>
     db_inv d \<and>
     (\<forall>u \<in> set (users d). locked_until u \<noteq> 0 \<longrightarrow> 5 \<le> failed_attempts u) \<and>
     (\<forall>s \<in> set (sessions d). user_id s \<in> uid ` set (users d)) \<and>
     (\<forall>u \<in> set (users d). 0 \<le> balance u)"


section \<open>An invariant of the remote store\<close>

text \<open>
  No stored balance is negative, and no call is about to write a negative balance.
\<close>

definition fb_pending_ok :: "fb_call \<Rightarrow> bool" where
  "fb_pending_ok c = (case c of UpdateBalance i k b b' \<Rightarrow> 0 \<le> b' | _ \<Rightarrow> True)"

definition fb_nonneg :: "fb_store \<Rightarrow> bool" where
  "fb_nonneg st = list_all (\<lambda>(i, u). 0 \<le> fb_balance u) (fb_users st)"

section \<open>Searching and updating lists\<close>

lemma findIndex_Some:
  "findIndex P xs = Some i \<Longrightarrow> i < length xs \<and> P (xs ! i) \<and> find P xs = Some (xs ! i)"
  by (induction xs arbitrary: i) (auto split: if_splits)

lemma findIndex_None: "findIndex P xs = None \<longleftrightarrow> (\<forall>x \<in> set xs. \<not> P x)"
  by (induction xs) auto

lemma findIndex_distinct:
  "distinct (map f xs) \<Longrightarrow> u \<in> set xs \<Longrightarrow>
   \<exists>i. findIndex (\<lambda>x. f x = f u) xs = Some i \<and> xs ! i = u \<and> i < length xs"
  by (induction xs) (auto simp: image_iff)

lemma find_distinct:
  "distinct (map f xs) \<Longrightarrow> u \<in> set xs \<Longrightarrow> find (\<lambda>x. f x = f u) xs = Some u"
  by (induction xs) (auto simp: image_iff)

lemma list_update_distinct:
  "distinct (map f xs) \<Longrightarrow> i < length xs \<Longrightarrow>
   xs[i := g (xs ! i)] = map (\<lambda>x. if f x = f (xs ! i) then g x else x) xs"
proof (induction xs arbitrary: i)
  case Nil
  then show ?case by simp
next
  case (Cons a xs)
  show ?case
  proof (cases i)
    case 0
    with Cons.prems show ?thesis
      by (auto simp: image_iff intro!: map_idI[symmetric])
  next
    case (Suc j)
    with Cons show ?thesis
      by (auto simp: image_iff)
  qed
qed

section \<open>Charging an account\<close>

lemma createUser_fresh:
  "createUser sample_libs 7 1000 init_db ''alice'' ''secret1'' = (Inr (1, ''alice''), alice_db)"
  by (simp add: createUser_def init_db_def alice_db_def alice_def hashSync_def sample_libs_def)

text \<open>
  Claim C1. \<^verbatim>\<open>dbHelpers.processPayment\<close> for a user of a store with unique ids succeeds
  exactly when the user's balance is at least 110. When it succeeds, the balance of that
  user goes down by 110 and no other user changes, one payment record is appended whose
  \<open>balance_before\<close> is the balance read and whose \<open>balance_after\<close> is 110 less, and the
  receipt shows the same two balances. When it fails, it throws
  \<^verbatim>\<open>Insufficient funds\<close> and the store is the one it was called with.
\<close>

theorem processPayment_charge:
  assumes "distinct (map uid (users d))" and "u \<in> set (users d)"
  shows "((\<exists>r d'. processPayment now d (uid u) = (Inr r, d')) \<longleftrightarrow> 110 \<le> balance u) \<and>
         (110 \<le> balance u \<longrightarrow>
            (\<exists>r p d'. processPayment now d (uid u) = (Inr r, d') \<and>
               users d' = map (\<lambda>x. if uid x = uid u then x\<lparr>balance := balance x - 110\<rparr> else x)
                              (users d) \<and>
               payments d' = payments d @ [p] \<and> sessions d' = sessions d \<and>
               p_user_id p = uid u \<and> amount p = 110 \<and>
               balance_before p = balance u \<and> balance_after p = balance_before p - 110 \<and>
               paymentId r = pid p \<and> r_balanceBefore r = balance u \<and>
               r_balanceAfter r = balance u - 110)) \<and>
         (balance u < 110 \<longrightarrow>
            processPayment now d (uid u) = (Inl (JsError ''Insufficient funds'' []), d))"
proof -
  from findIndex_distinct[OF assms] obtain i where
    i: "findIndex (\<lambda>x. uid x = uid u) (users d) = Some i" "users d ! i = u" "i < length (users d)"
    by blast
  have upd: "(users d)[i := u\<lparr>balance := balance u - 110\<rparr>] =
        map (\<lambda>x. if uid x = uid u then x\<lparr>balance := balance x - 110\<rparr> else x) (users d)"
    using list_update_distinct[OF assms(1) i(3), of "\<lambda>x. x\<lparr>balance := balance x - 110\<rparr>"] i(2)
    by simp
  show ?thesis
  proof (cases "balance u < 110")
    case True
    then show ?thesis using i by (simp add: processPayment_def)
  next
    case False
    then show ?thesis using i upd by (simp add: processPayment_def Let_def)
  qed
qed

text \<open>
  A fresh account (balance 800) charged twice: 800 to 690, then 690 to 580.
\<close>

theorem processPayment_charge_witness:
  "distinct (map uid (users alice_db)) \<and> alice \<in> set (users alice_db) \<and>
   110 \<le> balance alice \<and>
   (\<exists>r d'. processPayment 1001 alice_db (uid alice) = (Inr r, d')) \<and>
   fst (processPayment 1001 alice_db 1) =
     Inr \<lparr>paymentId = 1, r_amount = 110, r_balanceBefore = 800, r_balanceAfter = 690\<rparr> \<and>
   fst (processPayment 1002 (snd (processPayment 1001 alice_db 1)) 1) =
     Inr \<lparr>paymentId = 2, r_amount = 110, r_balanceBefore = 690, r_balanceAfter = 580\<rparr>"
  using processPayment_charge[of alice_db alice 1001]
  by (simp add: processPayment_def alice_db_def alice_def)


text \<open>
  Eight charges of the fresh account: seven succeed, the eighth finds 30 and fails; the
  balance stays at 30 and seven payments are on record.
\<close>

lemma fresh_account_eight_charges:
  "map (map_sum err_message r_balanceAfter) (fst (charge_times 8 1001 alice_db 1)) =
     [Inr 690, Inr 580, Inr 470, Inr 360, Inr 250, Inr 140, Inr 30, Inl ''Insufficient funds''] \<and>
   map balance (users (snd (charge_times 8 1001 alice_db 1))) = [30] \<and>
   length (payments (snd (charge_times 8 1001 alice_db 1))) = 7"
  by (simp add: eval_nat_numeral processPayment_def alice_db_def alice_def)

section \<open>The invariants are kept\<close>

lemma map_update_first:
  "(\<And>x. f (g x) = f x) \<Longrightarrow> map f (update_first P g xs) = map f xs"
  by (induction xs) auto

lemma update_first_distinct:
  "distinct (map f xs) \<Longrightarrow> u \<in> set xs \<Longrightarrow>
   update_first (\<lambda>x. f x = f u) g xs = map (\<lambda>x. if f x = f u then g x else x) xs"
  by (induction xs) (auto simp: image_iff intro!: map_idI[symmetric])

lemma set_update_first:
  "x \<in> set (update_first P g xs) \<Longrightarrow> x \<in> set xs \<or> (\<exists>y \<in> set xs. P y \<and> x = g y)"
  by (induction xs) (auto split: if_splits)

lemma find_None_iff2: "find P xs = None \<longleftrightarrow> (\<forall>x \<in> set xs. \<not> P x)"
  by (induction xs) auto

lemma find_Some_set: "find P xs = Some x \<Longrightarrow> x \<in> set xs \<and> P x"
  by (induction xs) (auto split: if_splits)

lemma db_inv_init: "db_inv init_db"
  by (simp add: db_inv_def init_db_def)

lemma db_inv_createUser: "db_inv d \<Longrightarrow> db_inv (snd (createUser L r now d name pw))"
proof (cases "find (\<lambda>u. username u = name) (users d)")
  case None
  assume inv: "db_inv d"
  from None have fresh: "name \<notin> username ` set (users d)"
    by (auto simp: find_None_iff2)
  from inv have "Suc (lastUserId d) \<notin> uid ` set (users d)"
    by (fastforce simp: db_inv_def)
  with inv fresh None show ?thesis
    by (auto simp: db_inv_def createUser_def Let_def)
next
  case (Some a)
  assume "db_inv d"
  with Some show ?thesis by (simp add: createUser_def)
qed

lemma db_inv_updateFailedAttempts:
  "db_inv d \<Longrightarrow> db_inv (updateFailedAttempts d i n t)"
  by (auto simp: db_inv_def updateFailedAttempts_def map_update_first dest!: set_update_first)

lemma db_inv_saveSession: "db_inv d \<Longrightarrow> db_inv (saveSession now d i h e)"
  by (simp add: db_inv_def saveSession_def Let_def)

lemma db_inv_removeSession: "db_inv d \<Longrightarrow> db_inv (removeSession d h)"
  by (simp add: db_inv_def removeSession_def)

lemma db_inv_cleanup: "db_inv d \<Longrightarrow> db_inv (cleanupExpiredSessions now d)"
  by (simp add: db_inv_def cleanupExpiredSessions_def)

lemma users_processPayment:
  "map uid (users (snd (processPayment now d i))) = map uid (users d) \<and>
   map username (users (snd (processPayment now d i))) = map username (users d)"
  by (auto simp: processPayment_def Let_def map_update list_update_same_conv
           split: option.splits dest!: findIndex_Some)

lemma set_users_processPayment:
  "x \<in> set (users (snd (processPayment now d i))) \<Longrightarrow>
   \<exists>y \<in> set (users d). uid x = uid y \<and> username x = username y \<and>
      failed_attempts x = failed_attempts y \<and> locked_until x = locked_until y \<and>
      password_hash x = password_hash y \<and>
      (balance x = balance y \<or> (110 \<le> balance y \<and> balance x = balance y - 110))"
  by (auto simp: processPayment_def Let_def set_conv_nth nth_list_update
           split: option.splits if_splits dest!: findIndex_Some)

lemma frame_processPayment:
  "lastUserId (snd (processPayment now d i)) = lastUserId d \<and>
   sessions (snd (processPayment now d i)) = sessions d \<and>
   lastSessionId (snd (processPayment now d i)) = lastSessionId d"
  by (simp add: processPayment_def Let_def split: option.splits)

lemma db_inv_processPayment: "db_inv d \<Longrightarrow> db_inv (snd (processPayment now d i))"
  unfolding db_inv_def
  by (auto simp: users_processPayment frame_processPayment dest!: set_users_processPayment)

lemma db_inv_apply_call: "db_inv d \<Longrightarrow> db_inv (apply_call L c d)"
  by (cases c)
     (simp_all add: db_inv_createUser db_inv_updateFailedAttempts db_inv_saveSession
        db_inv_removeSession db_inv_processPayment db_inv_cleanup)


lemma api_inv_init: "api_inv init_db"
  by (simp add: api_inv_def db_inv_def init_db_def)

lemma api_inv_createUser: "api_inv d \<Longrightarrow> api_inv (snd (createUser L r now d name pw))"
  unfolding api_inv_def
  using db_inv_createUser[of d L r now name pw]
  by (auto simp: createUser_def Let_def split: option.splits)

lemma api_inv_updateFailedAttempts:
  "api_inv d \<Longrightarrow> (t \<noteq> 0 \<Longrightarrow> 5 \<le> n) \<Longrightarrow> api_inv (updateFailedAttempts d i n t)"
  unfolding api_inv_def
  using db_inv_updateFailedAttempts[of d i n t]
        map_update_first[of uid "\<lambda>u. u\<lparr>failed_attempts := n, locked_until := t\<rparr>"
                            "\<lambda>u. uid u = i" "users d"]
  by (auto simp: updateFailedAttempts_def  simp flip: set_map dest!: set_update_first)

lemma api_inv_saveSession:
  "api_inv d \<Longrightarrow> i \<in> uid ` set (users d) \<Longrightarrow> api_inv (saveSession now d i h e)"
  unfolding api_inv_def
  using db_inv_saveSession[of d now i h e]
  by (auto simp: saveSession_def Let_def)

lemma api_inv_removeSession: "api_inv d \<Longrightarrow> api_inv (removeSession d h)"
  unfolding api_inv_def
  using db_inv_removeSession[of d h]
  by (auto simp: removeSession_def)

lemma api_inv_processPayment: "api_inv d \<Longrightarrow> api_inv (snd (processPayment now d i))"
proof -
  assume a: "api_inv d"
  have "uid ` set (users (snd (processPayment now d i))) = uid ` set (users d)"
    using users_processPayment[of now d i] by (metis set_map)
  with a show ?thesis
    unfolding api_inv_def
    using db_inv_processPayment[of d now i]
    by (auto simp: frame_processPayment dest!: set_users_processPayment)
qed


lemma findUser_set: "findUser d name = Some u \<Longrightarrow> u \<in> set (users d) \<and> username u = name"
  by (auto simp: findUser_def dest: find_Some_set)

lemma uids_updateFailedAttempts:
  "uid ` set (users (updateFailedAttempts d i n t)) = uid ` set (users d)"
  using map_update_first[of uid "\<lambda>u. u\<lparr>failed_attempts := n, locked_until := t\<rparr>"
                            "\<lambda>u. uid u = i" "users d"]
  by (simp add: updateFailedAttempts_def flip: set_map)

lemma api_inv_login: "api_inv d \<Longrightarrow> api_inv (snd (login L now d name pw))"
proof -
  assume a: "api_inv d"
  show ?thesis
  proof (cases "findUser d name")
    case None
    with a show ?thesis by (simp add: login_def)
  next
    case (Some u)
    then have u: "uid u \<in> uid ` set (users d)" by (auto dest: findUser_set)
    have 1: "api_inv (updateFailedAttempts d (uid u) (failed_attempts u + 1)
                 (if 5 \<le> failed_attempts u + 1 then now + 30 * 60 else 0))"
      using a by (intro api_inv_updateFailedAttempts) (auto split: if_splits)
    have 2: "api_inv (saveSession now (updateFailedAttempts d (uid u) 0 0) (uid u) h e)" for h e
      using a u by (intro api_inv_saveSession api_inv_updateFailedAttempts)
                   (simp_all add: uids_updateFailedAttempts)
    have 3: "api_inv (saveSession now d (uid u) h e)" for h e
      using a u by (intro api_inv_saveSession)
    from a Some 1 2 3 show ?thesis
      by (simp add: login_def Let_def)
  qed
qed

lemma api_inv_logout: "api_inv d \<Longrightarrow> api_inv (snd (logout L now d token))"
  by (simp add: logout_def api_inv_removeSession split: sum.splits)

lemma snd_payments_route:
  "snd (payments_route L now d token) =
     (case authenticateToken L now d token of
        Inl e \<Rightarrow> d
      | Inr v \<Rightarrow> snd (processPayment now d (fst v)))"
  by (auto simp: payments_route_def split: sum.splits prod.splits)

lemma api_inv_payments_route: "api_inv d \<Longrightarrow> api_inv (snd (payments_route L now d token))"
  by (simp add: snd_payments_route api_inv_processPayment split: sum.splits)

lemma snd_register:
  "snd (register L r now d name pw) =
     (if name = [] \<or> pw = [] \<or> length pw < 6 then d
      else snd (createUser L r now d name pw))"
  by (auto simp: register_def split: sum.splits prod.splits)

lemma api_inv_register: "api_inv d \<Longrightarrow> api_inv (snd (register L r now d name pw))"
  by (simp add: snd_register api_inv_createUser)

lemma api_inv_handle: "api_inv d \<Longrightarrow> api_inv (handle L now q d)"
  by (cases q) (simp_all add: api_inv_register api_inv_login api_inv_logout api_inv_payments_route)

lemma api_inv_run_requests: "api_inv d \<Longrightarrow> api_inv (run_requests L qs d)"
  by (induction qs arbitrary: d) (auto simp: api_inv_handle)

section \<open>Unique usernames\<close>

text \<open>Every request changes the store through calls of the helpers only.\<close>

lemma handle_calls: "\<exists>cs. handle L now q d = fold (apply_call L) cs d"
proof (cases q)
  case (Register r name pw)
  have "handle L now q d = fold (apply_call L) [] d \<or>
        handle L now q d = fold (apply_call L) [CreateUser r now name pw] d"
    by (simp add: Register snd_register)
  then show ?thesis by blast
next
  case (Login name pw)
  show ?thesis
  proof (cases "findUser d name")
    case None
    then have "handle L now q d = fold (apply_call L) [] d"
      by (simp add: Login login_def)
    then show ?thesis by blast
  next
    case (Some u)
    let ?fail = "[UpdateFailedAttempts (uid u) (failed_attempts u + 1)
                    (if failed_attempts u + 1 \<ge> 5 then now + 30 * 60 else 0)]"
    let ?save = "SaveSession now (uid u) (hashToken L (jwt_sign L (uid u) (username u) now))
                    (now + 24 * 60 * 60)"
    have "handle L now q d = fold (apply_call L) [] d \<or>
          handle L now q d = fold (apply_call L) ?fail d \<or>
          handle L now q d = fold (apply_call L) [UpdateFailedAttempts (uid u) 0 0, ?save] d \<or>
          handle L now q d = fold (apply_call L) [?save] d"
      using Some by (simp add: Login login_def Let_def)
    then show ?thesis by blast
  qed
next
  case (Logout token)
  have "handle L now q d = fold (apply_call L) [] d \<or>
        handle L now q d = fold (apply_call L) [RemoveSession (hashToken L token)] d"
    by (simp add: Logout logout_def split: sum.splits)
  then show ?thesis by blast
next
  case (Payments token)
  have "handle L now q d = fold (apply_call L) [] d \<or>
        (\<exists>i. handle L now q d = fold (apply_call L) [ProcessPayment now i] d)"
    by (auto simp: Payments snd_payments_route split: sum.splits)
  then show ?thesis by blast
next
  case (Me token)
  then have "handle L now q d = fold (apply_call L) [] d" by simp
  then show ?thesis by blast
qed

lemma run_requests_calls: "\<exists>cs. run_requests L qs d = fold (apply_call L) cs d"
proof (induction qs arbitrary: d)
  case Nil
  have "run_requests L [] d = fold (apply_call L) [] d" by simp
  then show ?case by blast
next
  case (Cons nq qs)
  obtain now q where nq: "nq = (now, q)" by (cases nq)
  from handle_calls[of L now q d] obtain cs where cs: "handle L now q d = fold (apply_call L) cs d" ..
  from Cons.IH[of "handle L now q d"] obtain cs' where
    "run_requests L qs (handle L now q d) = fold (apply_call L) cs' (handle L now q d)" ..
  with cs nq have "run_requests L (nq # qs) d = fold (apply_call L) (cs @ cs') d" by simp
  then show ?case by blast
qed

lemma usernames_apply_call:
  "\<exists>ns. map username (users (apply_call L c d)) = map username (users d) @ ns"
proof (cases c)
  case (CreateUser r now name pw)
  then show ?thesis by (simp add: createUser_def Let_def split: option.splits)
next
  case (UpdateFailedAttempts i n t)
  then show ?thesis by (simp add: updateFailedAttempts_def map_update_first)
next
  case (SaveSession now i h e)
  then show ?thesis by (simp add: saveSession_def Let_def)
next
  case (RemoveSession h)
  then show ?thesis by (simp add: removeSession_def)
next
  case (ProcessPayment now i)
  then show ?thesis by (simp add: users_processPayment)
next
  case (CleanupExpiredSessions now)
  then show ?thesis by (simp add: cleanupExpiredSessions_def)
qed

lemma usernames_fold_apply_call:
  "name \<in> username ` set (users d) \<Longrightarrow> name \<in> username ` set (users (fold (apply_call L) cs d))"
proof (induction cs arbitrary: d)
  case Nil
  then show ?case by simp
next
  case (Cons c cs)
  from usernames_apply_call[of L c d] obtain ns where
    "map username (users (apply_call L c d)) = map username (users d) @ ns" ..
  then have "set (map username (users d)) \<subseteq> set (map username (users (apply_call L c d)))"
    by simp
  with Cons.prems have "name \<in> username ` set (users (apply_call L c d))"
    by auto
  from Cons.IH[OF this] show ?case by simp
qed

lemma db_inv_fold_apply_call: "db_inv d \<Longrightarrow> db_inv (fold (apply_call L) cs d)"
  by (induction cs arbitrary: d) (simp_all add: db_inv_apply_call)

lemma count_distinct:
  "distinct (map f xs) \<Longrightarrow> y \<in> f ` set xs \<Longrightarrow> length (filter (\<lambda>x. f x = y) xs) = 1"
proof (induction xs)
  case Nil
  then show ?case by simp
next
  case (Cons a xs)
  show ?case
  proof (cases "f a = y")
    case True
    with Cons.prems have "\<forall>x \<in> set xs. f x \<noteq> y" by (auto simp: image_iff)
    then have "filter (\<lambda>x. f x = y) xs = []" by (simp add: filter_empty_conv)
    with True show ?thesis by simp
  next
    case False
    with Cons show ?thesis by auto
  qed
qed

lemma createUser_taken:
  "name \<in> username ` set (users d) \<Longrightarrow>
   createUser L r now d name pw = (Inl (JsError ''Username already exists'' ''CONSTRAINT_UNIQUE''), d)"
  by (auto simp: createUser_def find_None_iff2 split: option.splits)

lemma createUser_success:
  "createUser L r now d name pw = (Inr res, d1) \<Longrightarrow>
   name \<notin> username ` set (users d) \<and> name \<in> username ` set (users d1) \<and>
   (\<exists>u. users d1 = users d @ [u] \<and> username u = name \<and> balance u = 800 \<and>
        failed_attempts u = 0 \<and> locked_until u = 0 \<and>
        password_hash u = hashSync L r pw 12 \<and> res = (uid u, name))"
  by (auto simp: createUser_def Let_def find_None_iff2 split: option.splits)

text \<open>
  Claim C8. In a store with unique usernames and ids, let \<^verbatim>\<open>createUser\<close> succeed for a
  username, and let any sequence of \<^verbatim>\<open>dbHelpers\<close> calls follow (the requests of the API
  change the store through these calls only, \<open>run_requests_calls\<close>). Then every further
  \<^verbatim>\<open>createUser\<close> for that username, with any password, throws \<^verbatim>\<open>CONSTRAINT_UNIQUE\<close>
  and leaves the store as it is; the route
  \<^verbatim>\<open>POST /auth/register\<close> fails too, with status 409 unless it already rejects the request
  for an empty field or a short password; the store holds exactly one user of that
  name; and the usernames of the store are still pairwise different.
\<close>

theorem createUser_unique:
  assumes "db_inv d" and "createUser L r now d name pw = (Inr res, d1)"
    and "d2 = fold (apply_call L) cs d1"
  shows "createUser L r' now' d2 name pw' =
           (Inl (JsError ''Username already exists'' ''CONSTRAINT_UNIQUE''), d2) \<and>
         (\<exists>e. register L r' now' d2 name pw' = (Inl e, d2)) \<and>
         (name \<noteq> [] \<and> 6 \<le> length pw' \<longrightarrow>
            register L r' now' d2 name pw' = (Inl (409, ''Username already exists''), d2)) \<and>
         length (filter (\<lambda>u. username u = name) (users d2)) = 1 \<and>
         distinct (map username (users d2))"
proof -
  from assms(2) have "name \<in> username ` set (users d1)"
    by (auto dest: createUser_success)
  then have mem: "name \<in> username ` set (users d2)"
    unfolding assms(3) by (rule usernames_fold_apply_call)
  from assms(1) have "db_inv d1"
    using db_inv_createUser[of d L r now name pw] assms(2) by simp
  then have "db_inv d2"
    unfolding assms(3) by (rule db_inv_fold_apply_call)
  then have dist: "distinct (map username (users d2))"
    by (simp add: db_inv_def)
  note taken = createUser_taken[OF mem, of L r' now' pw']
  have reg: "\<exists>e. register L r' now' d2 name pw' = (Inl e, d2)"
    by (simp add: register_def taken)
  have reg409: "name \<noteq> [] \<and> 6 \<le> length pw' \<longrightarrow>
            register L r' now' d2 name pw' = (Inl (409, ''Username already exists''), d2)"
    by (auto simp: register_def taken)
  from taken reg reg409 count_distinct[OF dist mem] dist show ?thesis
    by blast
qed

theorem createUser_unique_witness:
  "db_inv init_db \<and>
   createUser sample_libs 7 1000 init_db ''alice'' ''secret1'' = (Inr (1, ''alice''), alice_db) \<and>
   fst (createUser sample_libs 9 1005
         (fold (apply_call sample_libs)
            [ProcessPayment 1001 1, CreateUser 3 1002 ''bob'' ''hunter22''] alice_db)
         ''alice'' ''another1'') =
     Inl (JsError ''Username already exists'' ''CONSTRAINT_UNIQUE'') \<and>
   length (filter (\<lambda>u. username u = ''alice'')
      (users (fold (apply_call sample_libs)
            [ProcessPayment 1001 1, CreateUser 3 1002 ''bob'' ''hunter22''] alice_db))) = 1"
  using createUser_unique[OF db_inv_init createUser_fresh refl,
          where cs = "[ProcessPayment 1001 1, CreateUser 3 1002 ''bob'' ''hunter22'']"
            and r' = 9 and now' = 1005 and pw' = "''another1''"]
        db_inv_init createUser_fresh
  by simp

section \<open>Login and lockout\<close>

lemma find_map_same:
  "(\<And>x. P (h x) = P x) \<Longrightarrow> find P (map h xs) = map_option h (find P xs)"
  by (induction xs) auto

lemma findUser_updateFailedAttempts:
  assumes "db_inv d" and "findUser d name = Some u"
  shows "findUser (updateFailedAttempts d (uid u) n t) name =
           Some (u\<lparr>failed_attempts := n, locked_until := t\<rparr>)"
proof -
  from assms(2) have u: "u \<in> set (users d)" by (auto dest: findUser_set)
  from assms(1) have "distinct (map uid (users d))" by (simp add: db_inv_def)
  from update_first_distinct[OF this u]
  have "users (updateFailedAttempts d (uid u) n t) =
          map (\<lambda>x. if uid x = uid u then x\<lparr>failed_attempts := n, locked_until := t\<rparr> else x) (users d)"
    by (simp add: updateFailedAttempts_def)
  moreover have "find (\<lambda>x. username x = name)
          (map (\<lambda>x. if uid x = uid u then x\<lparr>failed_attempts := n, locked_until := t\<rparr> else x) (users d)) =
        map_option (\<lambda>x. if uid x = uid u then x\<lparr>failed_attempts := n, locked_until := t\<rparr> else x)
          (find (\<lambda>x. username x = name) (users d))"
    by (rule find_map_same) simp
  ultimately show ?thesis using assms(2) by (simp add: findUser_def)
qed

text \<open>A wrong password for an account that is not locked.\<close>

lemma login_wrong_password:
  assumes "db_inv d" and "findUser d name = Some u" and "name \<noteq> []" and "pw \<noteq> []"
    and "locked_until u \<le> now" and "\<not> compareSync L pw (password_hash u)"
  shows "fst (login L now d name pw) = Inl (401, ''Invalid credentials'') \<and>
         db_inv (snd (login L now d name pw)) \<and>
         findUser (snd (login L now d name pw)) name =
           Some (u\<lparr>failed_attempts := failed_attempts u + 1,
                   locked_until := (if 5 \<le> failed_attempts u + 1 then now + 30 * 60 else 0)\<rparr>)"
  using assms findUser_updateFailedAttempts[OF assms(1,2)]
  by (simp add: login_def Let_def db_inv_updateFailedAttempts)

lemma login_locked:
  assumes "findUser d name = Some u" and "name \<noteq> []" and "pw \<noteq> []" and "now < locked_until u"
  shows "login L now d name pw =
           (Inl (423, ''Account temporarily locked due to failed login attempts''), d)"
  using assms by (simp add: login_def)

lemma run_wrong_logins:
  assumes "db_inv d" and "findUser d name = Some u" and "name \<noteq> []"
    and "\<forall>(t, p) \<in> set tps. p \<noteq> [] \<and> \<not> compareSync L p (password_hash u)"
    and "failed_attempts u + length tps < 5" and "locked_until u = 0"
  shows "db_inv (run_requests L (map (\<lambda>(t, p). (t, Login name p)) tps) d) \<and>
         findUser (run_requests L (map (\<lambda>(t, p). (t, Login name p)) tps) d) name =
           Some (u\<lparr>failed_attempts := failed_attempts u + length tps, locked_until := 0\<rparr>)"
  using assms
proof (induction tps arbitrary: d u)
  case Nil
  then show ?case by simp
next
  case (Cons tp tps)
  obtain t p where tp: "tp = (t, p)" by (cases tp)
  let ?u = "u\<lparr>failed_attempts := failed_attempts u + 1, locked_until := 0\<rparr>"
  let ?d = "snd (login L t d name p)"
  from Cons.prems tp have w: "p \<noteq> []" "\<not> compareSync L p (password_hash u)" by auto
  from login_wrong_password[OF Cons.prems(1,2,3) w(1) _ w(2), of t] Cons.prems(5,6)
  have 1: "db_inv ?d" "findUser ?d name = Some ?u" by simp_all
  have "db_inv (run_requests L (map (\<lambda>(t, p). (t, Login name p)) tps) ?d) \<and>
        findUser (run_requests L (map (\<lambda>(t, p). (t, Login name p)) tps) ?d) name =
           Some (?u\<lparr>failed_attempts := failed_attempts ?u + length tps, locked_until := 0\<rparr>)"
    using Cons.prems by (intro Cons.IH[OF 1 Cons.prems(3)]) auto
  then show ?case using tp by simp
qed

lemma compareSync_hashSync: "compareSync L s (hashSync L r s n)"
  by (simp add: compareSync_def hashSync_def)

lemma findUser_saveSession: "findUser (saveSession now d i h e) name = findUser d name"
  by (simp add: findUser_def saveSession_def Let_def)

lemma record_same: "failed_attempts u = 0 \<Longrightarrow> locked_until u = 0 \<Longrightarrow>
   u\<lparr>failed_attempts := 0, locked_until := 0\<rparr> = u"
  by (cases u) simp

text \<open>The right password for an account that is not locked (file-backed variant).\<close>

lemma login_correct_password:
  assumes "api_inv d" and "findUser d name = Some u" and "name \<noteq> []" and "pw \<noteq> []"
    and "locked_until u \<le> now" and "compareSync L pw (password_hash u)"
  shows "fst (login L now d name pw) =
           Inr (jwt_sign L (uid u) (username u) now, uid u, username u, balance u) \<and>
         findUser (snd (login L now d name pw)) name =
           Some (u\<lparr>failed_attempts := 0, locked_until := 0\<rparr>)"
proof -
  from assms(1) have inv: "db_inv d" by (simp add: api_inv_def)
  from assms(2) have "u \<in> set (users d)" by (auto dest: findUser_set)
  with assms(1) have lock: "locked_until u \<noteq> 0 \<longrightarrow> 5 \<le> failed_attempts u"
    by (simp add: api_inv_def)
  show ?thesis
  proof (cases "failed_attempts u > 0")
    case True
    with assms findUser_updateFailedAttempts[OF inv assms(2), of 0 0] show ?thesis
      by (simp add: login_def Let_def findUser_saveSession)
  next
    case False
    with lock have "failed_attempts u = 0" "locked_until u = 0" by auto
    with assms record_same[OF this] show ?thesis
      by (simp add: login_def Let_def findUser_saveSession)
  qed
qed

lemma register_fresh:
  "run_requests sample_libs [(1000, Register 7 ''alice'' ''secret1'')] init_db = alice_db"
  by (simp add: register_def createUser_fresh)

lemma five_wrong_logins_run: "run_requests sample_libs five_wrong_logins alice_db = locked_db"
  by (simp add: five_wrong_logins_def login_def findUser_def alice_db_def alice_def
        compareSync_def sample_libs_def updateFailedAttempts_def locked_db_def locked_alice_def)

lemma run_requests_append:
  "run_requests L (qs @ qs') d = run_requests L qs' (run_requests L qs d)"
  by (induction qs arbitrary: d) auto

lemma locked_db_reachable:
  "locked_db = run_requests sample_libs ((1000, Register 7 ''alice'' ''secret1'') # five_wrong_logins) init_db"
  using register_fresh five_wrong_logins_run by simp

lemma db_inv_alice_db: "db_inv alice_db"
  by (simp add: db_inv_def alice_db_def alice_def)

text \<open>
  Claim C4. Take an account of a store with unique usernames and ids that has no failed
  attempt on record and no lock time, and let five login requests with wrong passwords
  follow one another. After the fifth, made at second \<open>t5\<close>, the account has five failed
  attempts and is locked until \<open>t5 + 1800\<close>. From then on every login request for the
  account before that time is answered with status 423, whatever the password (the
  right one included): the lock is checked before the password is compared, and the
  store that the request leaves is the store it found.
\<close>

theorem login_lockout:
  assumes "db_inv d" and "findUser d name = Some u" and "name \<noteq> []"
    and "failed_attempts u = 0" and "locked_until u = 0"
    and "\<forall>p \<in> {p1, p2, p3, p4, p5}. p \<noteq> [] \<and> \<not> compareSync L p (password_hash u)"
    and "d5 = run_requests L [(t1, Login name p1), (t2, Login name p2), (t3, Login name p3),
                              (t4, Login name p4), (t5, Login name p5)] d"
  shows "findUser d5 name = Some (u\<lparr>failed_attempts := 5, locked_until := t5 + 1800\<rparr>) \<and>
         (\<forall>now pw. now < t5 + 1800 \<and> pw \<noteq> [] \<longrightarrow>
            login L now d5 name pw =
              (Inl (423, ''Account temporarily locked due to failed login attempts''), d5))"
proof -
  let ?tps = "[(t1, p1), (t2, p2), (t3, p3), (t4, p4)]"
  let ?d4 = "run_requests L (map (\<lambda>(t, p). (t, Login name p)) ?tps) d"
  let ?u4 = "u\<lparr>failed_attempts := 4, locked_until := 0\<rparr>"
  have "db_inv ?d4 \<and> findUser ?d4 name =
          Some (u\<lparr>failed_attempts := failed_attempts u + length ?tps, locked_until := 0\<rparr>)"
    using assms(4,5,6) by (intro run_wrong_logins[OF assms(1,2,3)]) auto
  with assms(4) have 4: "db_inv ?d4" "findUser ?d4 name = Some ?u4" by simp_all
  from assms(6) have w: "p5 \<noteq> []" "\<not> compareSync L p5 (password_hash ?u4)" by auto
  have d5: "d5 = snd (login L t5 ?d4 name p5)" by (simp add: assms(7))
  from login_wrong_password[OF 4 assms(3) w(1) _ w(2), of t5]
  have 5: "findUser d5 name = Some (u\<lparr>failed_attempts := 5, locked_until := t5 + 1800\<rparr>)"
    unfolding d5 by simp
  then have "login L now d5 name pw =
              (Inl (423, ''Account temporarily locked due to failed login attempts''), d5)"
    if "now < t5 + 1800" "pw \<noteq> []" for now pw
    using that assms(3) by (intro login_locked[where u = "u\<lparr>failed_attempts := 5, locked_until := t5 + 1800\<rparr>"]) simp_all
  with 5 show ?thesis by blast
qed

theorem login_lockout_witness:
  "db_inv alice_db \<and> findUser alice_db ''alice'' = Some alice \<and>
   failed_attempts alice = 0 \<and> locked_until alice = 0 \<and>
   \<not> compareSync sample_libs ''wrong5'' (password_hash alice) \<and>
   compareSync sample_libs ''secret1'' (password_hash alice) \<and>
   findUser locked_db ''alice'' = Some (alice\<lparr>failed_attempts := 5, locked_until := 3804\<rparr>) \<and>
   login sample_libs 3803 locked_db ''alice'' ''secret1'' =
     (Inl (423, ''Account temporarily locked due to failed login attempts''), locked_db)"
proof -
  have w: "\<forall>p \<in> {''wrong1'', ''wrong2'', ''wrong3'', ''wrong4'', ''wrong5''}.
             p \<noteq> [] \<and> \<not> compareSync sample_libs p (password_hash alice)"
    by (simp add: compareSync_def sample_libs_def alice_def)
  have f: "findUser alice_db ''alice'' = Some alice"
    by (simp add: findUser_def alice_db_def alice_def)
  have r: "locked_db = run_requests sample_libs
             [(2000, Login ''alice'' ''wrong1''), (2001, Login ''alice'' ''wrong2''),
              (2002, Login ''alice'' ''wrong3''), (2003, Login ''alice'' ''wrong4''),
              (2004, Login ''alice'' ''wrong5'')] alice_db"
    using five_wrong_logins_run by (simp add: five_wrong_logins_def)
  from login_lockout[OF db_inv_alice_db f _ _ _ w r]
  have "findUser locked_db ''alice'' = Some (alice\<lparr>failed_attempts := 5, locked_until := 2004 + 1800\<rparr>) \<and>
         (\<forall>now pw. now < 2004 + 1800 \<and> pw \<noteq> [] \<longrightarrow>
            login sample_libs now locked_db ''alice'' pw =
              (Inl (423, ''Account temporarily locked due to failed login attempts''), locked_db))"
    by (simp add: alice_def)
  then have "findUser locked_db ''alice'' = Some (alice\<lparr>failed_attempts := 5, locked_until := 3804\<rparr>)"
    and "login sample_libs 3803 locked_db ''alice'' ''secret1'' =
              (Inl (423, ''Account temporarily locked due to failed login attempts''), locked_db)"
    by simp_all
  with f db_inv_alice_db show ?thesis
    by (simp add: compareSync_def sample_libs_def alice_def)
qed


text \<open>
  Claim C10. In every store that the API requests can build from the empty store, an
  account that carries a lock time has at least five failed attempts on record: the
  count is not reset when the lock runs out, only by a successful login (which also
  clears the lock time). So when the lock time has passed, one more wrong password is
  answered with \<^verbatim>\<open>Invalid credentials\<close>, raises the count by one and locks the account
  again until 1800 seconds after that request.
\<close>

theorem login_relock:
  assumes "d = run_requests L qs init_db" and "findUser d name = Some u"
    and "name \<noteq> []" and "pw \<noteq> []"
    and "locked_until u \<noteq> 0" and "locked_until u \<le> now"
    and "\<not> compareSync L pw (password_hash u)"
  shows "5 \<le> failed_attempts u \<and>
         fst (login L now d name pw) = Inl (401, ''Invalid credentials'') \<and>
         findUser (snd (login L now d name pw)) name =
           Some (u\<lparr>failed_attempts := failed_attempts u + 1, locked_until := now + 1800\<rparr>)"
proof -
  have a: "api_inv d"
    unfolding assms(1) by (rule api_inv_run_requests[OF api_inv_init])
  then have inv: "db_inv d" by (simp add: api_inv_def)
  from assms(2) have "u \<in> set (users d)" by (auto dest: findUser_set)
  with a assms(5) have five: "5 \<le> failed_attempts u"
    by (simp add: api_inv_def)
  from login_wrong_password[OF inv assms(2,3,4,6,7)] five show ?thesis
    by simp
qed

theorem login_relock_witness:
  "findUser locked_db ''alice'' = Some locked_alice \<and>
   locked_until locked_alice \<noteq> 0 \<and> locked_until locked_alice \<le> 9999 \<and>
   \<not> compareSync sample_libs ''wrong6'' (password_hash locked_alice) \<and>
   5 \<le> failed_attempts locked_alice \<and>
   fst (login sample_libs 9999 locked_db ''alice'' ''wrong6'') = Inl (401, ''Invalid credentials'') \<and>
   findUser (snd (login sample_libs 9999 locked_db ''alice'' ''wrong6'')) ''alice'' =
     Some (locked_alice\<lparr>failed_attempts := 6, locked_until := 11799\<rparr>)"
proof -
  have f: "findUser locked_db ''alice'' = Some locked_alice"
    by (simp add: findUser_def locked_db_def locked_alice_def alice_def)
  have w: "\<not> compareSync sample_libs ''wrong6'' (password_hash locked_alice)"
    by (simp add: compareSync_def sample_libs_def locked_alice_def alice_def)
  from login_relock[OF locked_db_reachable f _ _ _ _ w, of 9999] f w show ?thesis
    by (simp add: locked_alice_def)
qed

section \<open>Validating a token\<close>

lemma find_exists: "x \<in> set xs \<Longrightarrow> P x \<Longrightarrow> \<exists>y. find P xs = Some y"
  by (cases "find P xs") (auto simp: find_None_iff2)

lemma validateSession_SomeD:
  "validateSession now d h = Some (s, name, bal) \<Longrightarrow>
      s \<in> set (sessions d) \<and> token_hash s = h \<and> now < expires_at s \<and>
      (\<exists>u \<in> set (users d). uid u = user_id s \<and> username u = name \<and> balance u = bal)"
  by (auto simp: validateSession_def split: option.splits dest!: find_Some_set)

lemma validateSession_iff:
  assumes own: "\<forall>s \<in> set (sessions d). user_id s \<in> uid ` set (users d)"
  shows "(validateSession now d h \<noteq> None) =
      (\<exists>s \<in> set (sessions d). token_hash s = h \<and> now < expires_at s)"
proof
  assume "validateSession now d h \<noteq> None"
  then show "\<exists>s \<in> set (sessions d). token_hash s = h \<and> now < expires_at s"
    by (auto simp: validateSession_def split: option.splits dest!: find_Some_set)
next
  let ?P = "\<lambda>s. token_hash s = h \<and> now < expires_at s"
  assume "\<exists>s \<in> set (sessions d). token_hash s = h \<and> now < expires_at s"
  then obtain s' where s': "find ?P (sessions d) = Some s'"
    using find_exists[of _ "sessions d" ?P] by blast
  then have "s' \<in> set (sessions d)" by (auto dest: find_Some_set)
  with own have "user_id s' \<in> uid ` set (users d)" by blast
  then obtain x where "x \<in> set (users d)" "uid x = user_id s'" by auto
  from find_exists[of x "users d" "\<lambda>u. uid u = user_id s'", OF this]
  obtain u where "find (\<lambda>u. uid u = user_id s') (users d) = Some u" ..
  with s' show "validateSession now d h \<noteq> None"
    by (simp add: validateSession_def)
qed

lemma validateSession_expired:
  assumes "\<forall>s \<in> set (sessions d). token_hash s = h \<longrightarrow> expires_at s \<le> now"
  shows "validateSession now d h = None"
proof -
  from assms have "find (\<lambda>s. token_hash s = h \<and> now < expires_at s) (sessions d) = None"
    by (auto simp: find_None_iff2)
  then show ?thesis by (simp add: validateSession_def)
qed

lemma validateSession_orphan:
  assumes "\<forall>s \<in> set (sessions d). token_hash s = h \<and> now < expires_at s \<longrightarrow>
         user_id s \<notin> uid ` set (users d)"
  shows "validateSession now d h = None"
  using assms
  by (fastforce simp: validateSession_def image_iff split: option.splits dest!: find_Some_set)

lemma authenticateToken_InrD:
  "authenticateToken L now d token = Inr (i, name, bal) \<Longrightarrow>
     \<exists>s \<in> set (sessions d). token_hash s = hashToken L token \<and> now < expires_at s \<and>
        user_id s = i \<and>
        (\<exists>u \<in> set (users d). uid u = i \<and> username u = name \<and> balance u = bal)"
  by (auto simp: authenticateToken_def split: if_splits option.splits
           dest!: validateSession_SomeD)

lemma authenticateToken_iff:
  assumes "\<forall>s \<in> set (sessions d). user_id s \<in> uid ` set (users d)"
    and "token \<noteq> []" and "jwt_verify L token now"
  shows "(\<exists>v. authenticateToken L now d token = Inr v) =
         (\<exists>s \<in> set (sessions d). token_hash s = hashToken L token \<and> now < expires_at s)"
  using validateSession_iff[OF assms(1), of now "hashToken L token"] assms(2,3)
  by (auto simp: authenticateToken_def split: option.splits)

lemma authenticateToken_403:
  "token \<noteq> [] \<Longrightarrow> authenticateToken L now d token = Inl e \<Longrightarrow> fst e = 403"
  by (auto simp: authenticateToken_def split: if_splits option.splits)

text \<open>
  File-backed variant. \<^verbatim>\<open>authenticateToken\<close> hashes the token and asks
  \<^verbatim>\<open>dbHelpers.validateSession\<close>. When it succeeds, the store holds a session with the token's digest that expires after
  \<open>now\<close>, and the identity returned is the id, name and balance of a stored user, the
  owner of that session. Where every session belongs to a stored user, it succeeds for
  a token that is present and verifies exactly when the store holds a session with the
  token's digest that expires after \<open>now\<close>. Every failure for a token that is present has
  the one status 403. \<^verbatim>\<open>validateSession\<close> itself has the one failure value \<^verbatim>\<open>null\<close>: it
  returns it when no session has the hash or all that have it are expired, and when the
  sessions that match belong to no stored user; \<^verbatim>\<open>authenticateToken\<close> answers it with
  the text \<^verbatim>\<open>Invalid or expired token\<close>, and a token that does not verify with the text
  \<^verbatim>\<open>Invalid token\<close>.
\<close>

theorem authenticateToken_live:
  "(authenticateToken L now d token = Inr (i, name, bal) \<longrightarrow>
      (\<exists>s \<in> set (sessions d). token_hash s = hashToken L token \<and> now < expires_at s \<and>
         user_id s = i \<and>
         (\<exists>u \<in> set (users d). uid u = i \<and> username u = name \<and> balance u = bal))) \<and>
   ((\<forall>s \<in> set (sessions d). user_id s \<in> uid ` set (users d)) \<and>
    token \<noteq> [] \<and> jwt_verify L token now \<longrightarrow>
      (\<exists>v. authenticateToken L now d token = Inr v) =
      (\<exists>s \<in> set (sessions d). token_hash s = hashToken L token \<and> now < expires_at s)) \<and>
   (token \<noteq> [] \<and> authenticateToken L now d token = Inl e \<longrightarrow> fst e = 403) \<and>
   ((\<forall>s \<in> set (sessions d). token_hash s = h \<longrightarrow> expires_at s \<le> now) \<longrightarrow>
      validateSession now d h = None) \<and>
   ((\<forall>s \<in> set (sessions d). token_hash s = h \<and> now < expires_at s \<longrightarrow>
         user_id s \<notin> uid ` set (users d)) \<longrightarrow>
      validateSession now d h = None) \<and>
   (token \<noteq> [] \<and> jwt_verify L token now \<and> validateSession now d (hashToken L token) = None \<longrightarrow>
      authenticateToken L now d token = Inl (403, ''Invalid or expired token''))"
proof -
  have last: "token \<noteq> [] \<and> jwt_verify L token now \<and>
      validateSession now d (hashToken L token) = None \<longrightarrow>
      authenticateToken L now d token = Inl (403, ''Invalid or expired token'')"
    by (simp add: authenticateToken_def)
  from authenticateToken_InrD[of L now d token i name bal]
    authenticateToken_iff[of d token L now] authenticateToken_403[of token L now d e]
    validateSession_expired[of d h now] validateSession_orphan[of d h now] last
  show ?thesis by blast
qed

text \<open>The session that a successful login stores, and how long its token is accepted.\<close>

lemma login_session:
  assumes "login L t0 d0 name pw = (Inr (tok, i, nm, b), d1)"
  shows "\<exists>s u. sessions d1 = sessions d0 @ [s] \<and> token_hash s = hashToken L tok \<and>
           expires_at s = t0 + 86400 \<and> user_id s = i \<and>
           findUser d0 name = Some u \<and> i = uid u \<and> nm = username u \<and> b = balance u \<and>
           map uid (users d1) = map uid (users d0) \<and>
           map username (users d1) = map username (users d0) \<and>
           map balance (users d1) = map balance (users d0)"
  using assms
  by (auto simp: login_def Let_def saveSession_def updateFailedAttempts_def map_update_first
           split: if_splits option.splits)


lemma token_lifetime:
  assumes "api_inv d0" and "login L t0 d0 name pw = (Inr (tok, i, nm, b), d1)"
    and "\<forall>s \<in> set (sessions d0). token_hash s \<noteq> hashToken L tok"
  shows "(validateSession now d1 (hashToken L tok) \<noteq> None) = (now < t0 + 86400)"
proof -
  from api_inv_login[OF assms(1), of L t0 name pw] assms(2) have "api_inv d1" by simp
  then have own: "\<forall>s \<in> set (sessions d1). user_id s \<in> uid ` set (users d1)"
    by (simp add: api_inv_def)
  from login_session[OF assms(2)] obtain s where
    s: "sessions d1 = sessions d0 @ [s]" "token_hash s = hashToken L tok" "expires_at s = t0 + 86400"
    by blast
  show ?thesis
    unfolding validateSession_iff[OF own] using s assms(3) by auto
qed

lemma login_alice:
  "login sample_libs 2000 alice_db ''alice'' ''secret1'' =
     (Inr (''jwt.alice'', 1, ''alice'', 800), session_db)"
  by (simp add: login_def findUser_def alice_db_def alice_def compareSync_def sample_libs_def
        hashToken_def saveSession_def session_db_def Let_def)

lemma api_inv_session_db: "api_inv session_db"
  by (simp add: api_inv_def db_inv_def session_db_def alice_db_def alice_def)

text \<open>
  The token that \<open>alice\<close> got at second 2000 is accepted at second 88399 and refused
  from second 88400 on; a token that was never issued and a session without its user
  give \<^verbatim>\<open>null\<close>.
\<close>

theorem authenticateToken_live_witness:
  "login sample_libs 2000 alice_db ''alice'' ''secret1'' =
     (Inr (''jwt.alice'', 1, ''alice'', 800), session_db) \<and>
   api_inv session_db \<and>
   authenticateToken sample_libs 88399 session_db ''jwt.alice'' = Inr (1, ''alice'', 800) \<and>
   authenticateToken sample_libs 88400 session_db ''jwt.alice'' =
     Inl (403, ''Invalid or expired token'') \<and>
   validateSession 88400 session_db ''jwt.alice'' = None \<and>
   validateSession 2500 session_db ''never issued'' = None \<and>
   validateSession 2500 (session_db\<lparr>users := []\<rparr>) ''jwt.alice'' = None"
proof -
  have own: "\<forall>s \<in> set (sessions session_db). user_id s \<in> uid ` set (users session_db)"
    using api_inv_session_db by (simp add: api_inv_def)
  have h: "hashToken sample_libs ''jwt.alice'' = ''jwt.alice''"
    by (simp add: hashToken_def sample_libs_def)
  have v: "''jwt.alice'' \<noteq> []" "jwt_verify sample_libs ''jwt.alice'' now" for now
    by (simp_all add: sample_libs_def)
  have live: "\<exists>s \<in> set (sessions session_db).
      token_hash s = hashToken sample_libs ''jwt.alice'' \<and> 88399 < expires_at s"
    by (simp add: session_db_def h)
  have expired: "\<forall>s \<in> set (sessions session_db). token_hash s = ''jwt.alice'' \<longrightarrow> expires_at s \<le> 88400"
    by (simp add: session_db_def)
  have unknown: "\<forall>s \<in> set (sessions session_db). token_hash s = ''never issued'' \<longrightarrow> expires_at s \<le> 2500"
    by (simp add: session_db_def)
  have orphan: "\<forall>s \<in> set (sessions (session_db\<lparr>users := []\<rparr>)).
      token_hash s = ''jwt.alice'' \<and> 2500 < expires_at s \<longrightarrow>
      user_id s \<notin> uid ` set (users (session_db\<lparr>users := []\<rparr>))"
    by simp
  from authenticateToken_live[where now = 88399 and d = session_db and token = "''jwt.alice''"
         and L = sample_libs] own live v
  obtain r where r: "authenticateToken sample_libs 88399 session_db ''jwt.alice'' = Inr r"
    by blast
  obtain i name bal where "r = (i, name, bal)" by (cases r)
  with r authenticateToken_live[where now = 88399 and d = session_db and token = "''jwt.alice''"
         and L = sample_libs and i = i and name = name and bal = bal]
  have 1: "authenticateToken sample_libs 88399 session_db ''jwt.alice'' = Inr (1, ''alice'', 800)"
    by (auto simp: session_db_def alice_db_def alice_def)
  from authenticateToken_live[where now = 88400 and d = session_db and h = "''jwt.alice''"] expired
  have 2: "validateSession 88400 session_db ''jwt.alice'' = None" by blast
  from authenticateToken_live[where now = 2500 and d = session_db and h = "''never issued''"] unknown
  have 3: "validateSession 2500 session_db ''never issued'' = None" by blast
  from authenticateToken_live[where now = 2500 and d = "session_db\<lparr>users := []\<rparr>"
         and h = "''jwt.alice''"] orphan
  have 4: "validateSession 2500 (session_db\<lparr>users := []\<rparr>) ''jwt.alice'' = None" by blast
  from authenticateToken_live[where now = 88400 and d = session_db and token = "''jwt.alice''"
         and L = sample_libs] 2 h v
  have 5: "authenticateToken sample_libs 88400 session_db ''jwt.alice'' =
     Inl (403, ''Invalid or expired token'')" by simp
  from login_alice api_inv_session_db 1 2 3 4 5 show ?thesis by blast
qed

section \<open>Logging out\<close>

text \<open>In-memory variant: \<^verbatim>\<open>logout\<close> answers every token with success.\<close>

lemma v2_logout_success: "fst (v2_logout L r d token) = Inr ''Logged out''"
  by (simp add: v2_logout_def Let_def)

lemma authenticateToken_no_session:
  assumes "\<forall>s \<in> set (sessions d). token_hash s = hashToken L token \<longrightarrow> expires_at s \<le> now"
  shows "\<exists>e. authenticateToken L now d token = Inl e \<and> (token \<noteq> [] \<longrightarrow> fst e = 403)"
  using validateSession_expired[OF assms]
  by (simp add: authenticateToken_def)

text \<open>
  File-backed variant: a logout without a token, or with a token that does not verify,
  is refused and leaves the store as it is.
\<close>

lemma logout_no_token: "logout L now d [] = (Inl (401, ''Access token required''), d)"
  by (simp add: logout_def authenticateToken_def)

lemma logout_unverified:
  "token \<noteq> [] \<Longrightarrow> \<not> jwt_verify L token now \<Longrightarrow>
   logout L now d token = (Inl (403, ''Invalid token''), d)"
  by (simp add: logout_def authenticateToken_def)

text \<open>
  Claim C6 in the file-backed variant. \<open>alice\<close> has logged in and holds the token of a
  live session. Her first \<^verbatim>\<open>POST /auth/logout\<close> with it is answered with success and
  removes the session. Her second, with the same token one second later, is answered
  with status 403 and the text \<^verbatim>\<open>Invalid or expired token\<close>: the route runs behind
  \<^verbatim>\<open>authenticateToken\<close>, which finds no session for the token any more.
\<close>

theorem logout_twice_rejected:
  "logout sample_libs 2050 session_db ''jwt.alice'' =
     (Inr ''Logout successful'', alice_db\<lparr>lastSessionId := 1\<rparr>) \<and>
   logout sample_libs 2051 (alice_db\<lparr>lastSessionId := 1\<rparr>) ''jwt.alice'' =
     (Inl (403, ''Invalid or expired token''), alice_db\<lparr>lastSessionId := 1\<rparr>)"
  by (simp add: logout_def authenticateToken_def validateSession_def hashToken_def
        removeSession_def sample_libs_def session_db_def alice_db_def alice_def)

text \<open>
  File-backed variant: \<^verbatim>\<open>POST /auth/logout\<close> for every store and token. The route runs
  behind \<^verbatim>\<open>authenticateToken\<close>. When the token passes it, the answer is success and the store
  loses every session whose hash is the token's digest, and nothing else; every later
  logout with the same token is then refused, and leaves the store as it is. When the
  token does not pass, the answer is the error of \<^verbatim>\<open>authenticateToken\<close> and the store is
  unchanged; in particular a token whose digest has no session, or only expired ones,
  is refused (with status 403 when the token is present). The in-memory variant has no
  such gate: its \<^verbatim>\<open>logout\<close> answers every token with success.
\<close>

theorem logout_gated:
  "(authenticateToken L now d token = Inl e \<longrightarrow> logout L now d token = (Inl e, d)) \<and>
   (authenticateToken L now d token = Inr v \<longrightarrow>
      logout L now d token =
        (Inr ''Logout successful'',
         d\<lparr>sessions := filter (\<lambda>s. token_hash s \<noteq> hashToken L token) (sessions d)\<rparr>) \<and>
      (\<forall>now'. \<exists>e'. logout L now' (snd (logout L now d token)) token =
                       (Inl e', snd (logout L now d token)))) \<and>
   ((\<forall>s \<in> set (sessions d). token_hash s = hashToken L token \<longrightarrow> expires_at s \<le> now) \<longrightarrow>
      (\<exists>e'. logout L now d token = (Inl e', d) \<and> (token \<noteq> [] \<longrightarrow> fst e' = 403))) \<and>
   fst (v2_logout L r d2 token) = Inr ''Logged out''"
proof -
  let ?d' = "d\<lparr>sessions := filter (\<lambda>s. token_hash s \<noteq> hashToken L token) (sessions d)\<rparr>"
  have 1: "authenticateToken L now d token = Inl e \<longrightarrow> logout L now d token = (Inl e, d)"
    by (simp add: logout_def)
  have 3: "\<exists>e'. logout L now d token = (Inl e', d) \<and> (token \<noteq> [] \<longrightarrow> fst e' = 403)"
    if "\<forall>s \<in> set (sessions d). token_hash s = hashToken L token \<longrightarrow> expires_at s \<le> now" for d now
    using authenticateToken_no_session[OF that] by (auto simp: logout_def)
  have gone: "\<forall>s \<in> set (sessions ?d'). token_hash s = hashToken L token \<longrightarrow> expires_at s \<le> now'" for now'
    by simp
  have 2: "logout L now d token = (Inr ''Logout successful'', ?d') \<and>
      (\<forall>now'. \<exists>e'. logout L now' (snd (logout L now d token)) token =
                       (Inl e', snd (logout L now d token)))"
    if "authenticateToken L now d token = Inr v"
  proof -
    from that have l: "logout L now d token = (Inr ''Logout successful'', ?d')"
      by (simp add: logout_def removeSession_def)
    moreover have "\<exists>e'. logout L now' ?d' token = (Inl e', ?d')" for now'
      using 3[OF gone[of now']] by blast
    ultimately show ?thesis by simp
  qed
  from 1 2 3 v2_logout_success[of L r d2 token] show ?thesis by blast
qed


theorem logout_gated_witness:
  "authenticateToken sample_libs 2050 session_db ''jwt.alice'' = Inr (1, ''alice'', 800) \<and>
   logout sample_libs 2050 session_db ''jwt.alice'' = (Inr ''Logout successful'', alice_db\<lparr>lastSessionId := 1\<rparr>) \<and>
   authenticateToken sample_libs 2051 (alice_db\<lparr>lastSessionId := 1\<rparr>) ''jwt.alice'' =
     Inl (403, ''Invalid or expired token'') \<and>
   logout sample_libs 2051 (alice_db\<lparr>lastSessionId := 1\<rparr>) ''jwt.alice'' =
     (Inl (403, ''Invalid or expired token''), alice_db\<lparr>lastSessionId := 1\<rparr>)"
proof -
  have a: "authenticateToken sample_libs 2050 session_db ''jwt.alice'' = Inr (1, ''alice'', 800)"
    by (simp add: authenticateToken_def validateSession_def hashToken_def
        sample_libs_def session_db_def alice_db_def alice_def)
  have b: "authenticateToken sample_libs 2051 (alice_db\<lparr>lastSessionId := 1\<rparr>) ''jwt.alice'' =
     Inl (403, ''Invalid or expired token'')"
    by (simp add: authenticateToken_def validateSession_def hashToken_def
        sample_libs_def alice_db_def alice_def)
  have c: "session_db\<lparr>sessions := filter (\<lambda>s. token_hash s \<noteq> hashToken sample_libs ''jwt.alice'')
              (sessions session_db)\<rparr> = alice_db\<lparr>lastSessionId := 1\<rparr>"
    by (simp add: session_db_def hashToken_def sample_libs_def alice_db_def)
  from logout_gated[of sample_libs 2050 session_db "''jwt.alice''" _ "(1, ''alice'', 800)"] a c
  have 1: "logout sample_libs 2050 session_db ''jwt.alice'' =
             (Inr ''Logout successful'', alice_db\<lparr>lastSessionId := 1\<rparr>)"
    by simp
  from logout_gated[of sample_libs 2051 "alice_db\<lparr>lastSessionId := 1\<rparr>" "''jwt.alice''"
         "(403, ''Invalid or expired token'')"] b
  have 2: "logout sample_libs 2051 (alice_db\<lparr>lastSessionId := 1\<rparr>) ''jwt.alice'' =
     (Inl (403, ''Invalid or expired token''), alice_db\<lparr>lastSessionId := 1\<rparr>)"
    by blast
  from a b 1 2 show ?thesis by blast
qed

section \<open>The in-memory and the Java variant\<close>

lemma find_update_first:
  "(\<And>x. P (g x) = P x) \<Longrightarrow> find P (update_first P g xs) = map_option g (find P xs)"
  by (induction xs) auto

text \<open>In-memory variant: the lock is checked first, and a wrong hash counts.\<close>

lemma v2_login_locked:
  assumes "find (\<lambda>u. v2_username u = name) (v2_users d) = Some u"
    and "ms1 div 1000 < lockedUntil u"
  shows "v2_loginUser L r1 r2 ms1 ms2 d name pw = (Inl ''Account locked'', d)"
  using assms by (simp add: v2_loginUser_def Let_def)

lemma v2_login_mismatch:
  assumes "find (\<lambda>u. v2_username u = name) (v2_users d) = Some u"
    and "lockedUntil u \<le> ms1 div 1000" and "passwordHash u \<noteq> hashPassword L r1 pw"
  shows "fst (v2_loginUser L r1 r2 ms1 ms2 d name pw) = Inl ''Invalid credentials'' \<and>
         find (\<lambda>u. v2_username u = name) (v2_users (snd (v2_loginUser L r1 r2 ms1 ms2 d name pw))) =
           Some (if 5 \<le> failedAttempts u + 1
                 then u\<lparr>failedAttempts := failedAttempts u + 1, lockedUntil := ms1 div 1000 + 1800\<rparr>
                 else u\<lparr>failedAttempts := failedAttempts u + 1\<rparr>)"
  using assms by (simp add: v2_loginUser_def Let_def find_update_first)

text \<open>Java variant: the same, where the counter does not wrap.\<close>

lemma j_login_locked:
  assumes "find (\<lambda>u. j_username u = name) (j_users d) = Some u"
    and "ms1 sdiv 1000 < j_lockedUntil u"
  shows "j_loginUser L ms1 ms2 d name pw = (Inl ''Account locked'', d)"
  using assms by (simp add: j_loginUser_def Let_def)

lemma jint_id: "- (2 ^ 31) \<le> x \<Longrightarrow> x < 2 ^ 31 \<Longrightarrow> jint x = x"
  by (simp add: jint_def)

lemma jlong_id: "- (2 ^ 63) \<le> x \<Longrightarrow> x < 2 ^ 63 \<Longrightarrow> jlong x = x"
  by (simp add: jlong_def)

lemma j_login_mismatch:
  assumes "find (\<lambda>u. j_username u = name) (j_users d) = Some u"
    and "j_lockedUntil u \<le> ms1 sdiv 1000" and "j_passwordHash u \<noteq> j_hashPassword L pw"
    and "4 \<le> j_failedAttempts u" and "j_failedAttempts u < 2 ^ 31 - 1"
    and "0 \<le> ms1" and "ms1 < 2 ^ 62"
  shows "fst (j_loginUser L ms1 ms2 d name pw) = Inl ''Invalid credentials'' \<and>
         find (\<lambda>u. j_username u = name) (j_users (snd (j_loginUser L ms1 ms2 d name pw))) =
           Some (u\<lparr>j_failedAttempts := j_failedAttempts u + 1,
                   j_lockedUntil := ms1 sdiv 1000 + 1800\<rparr>)"
proof -
  have n: "jint (j_failedAttempts u + 1) = j_failedAttempts u + 1"
    using assms(4,5) by (intro jint_id) simp_all
  have s: "ms1 sdiv 1000 = ms1 div 1000"
    using assms(6) by (simp add: signed_divide_int_def sgn_if)
  have "0 \<le> ms1 div 1000" "ms1 div 1000 < 2 ^ 62"
    using assms(6,7) by simp_all
  then have l: "jlong (ms1 sdiv 1000 + 30 * 60) = ms1 sdiv 1000 + 1800"
    unfolding s by (intro jlong_id[THEN trans]) simp_all
  show ?thesis
    using assms(1,2,3,4) n l
    by (simp add: j_loginUser_def Let_def find_update_first)
qed

text \<open>
  In-memory variant: \<^verbatim>\<open>processPayment\<close> once its session lookup has found a session and
  the user of that session.
\<close>

lemma v2_processPayment_charge:
  assumes "find (\<lambda>s. tokenHash s = hashPassword L r token \<and> expiresAt s > ms div 1000)
             (v2_sessions d) = Some s"
    and "find (\<lambda>u. v2_id u = userId s) (v2_users d) = Some u"
  shows "v2_processPayment L r ms d token =
           (if v2_balance u < 110 then (Inl ''Insufficient funds'', d)
            else (Inr (v2_balance u - 110),
                  d\<lparr>v2_users := update_first (\<lambda>x. v2_id x = userId s)
                                    (\<lambda>x. x\<lparr>v2_balance := v2_balance u - 110\<rparr>) (v2_users d),
                    v2_payments := v2_payments d @
                      [\<lparr>v2_pid = nextPaymentId d, v2_p_userId = v2_id u, v2_amount = 110,
                        balanceBefore = v2_balance u, balanceAfter = v2_balance u - 110,
                        timestamp = ms div 1000\<rparr>],
                    nextPaymentId := nextPaymentId d + 1\<rparr>))"
  using assms by (simp add: v2_processPayment_def Let_def)

text \<open>
  In-memory variant: \<^verbatim>\<open>validateSession\<close> words the error for a session without a user
  differently, and finds no session whose hash was salted otherwise.
\<close>

lemma v2_validateSession_orphan:
  assumes "find (\<lambda>s. tokenHash s = hashPassword L r token \<and> expiresAt s > ms div 1000)
             (v2_sessions d) = Some s"
    and "userId s \<notin> v2_id ` set (v2_users d)"
  shows "v2_validateSession L r ms d token = Inl ''User not found''"
proof -
  from assms(2) have "find (\<lambda>u. v2_id u = userId s) (v2_users d) = None"
    by (auto simp: find_None_iff2 image_iff)
  with assms(1) show ?thesis by (simp add: v2_validateSession_def Let_def)
qed

lemma v2_validateSession_other_salt:
  assumes "\<forall>s \<in> set (v2_sessions d). bh_salt (tokenHash s) \<noteq> r"
  shows "v2_validateSession L r ms d token = Inl ''Invalid token''"
proof -
  from assms
  have "find (\<lambda>s. tokenHash s = hashPassword L r token \<and> expiresAt s > ms div 1000)
          (v2_sessions d) = None"
    by (auto simp: find_None_iff2 hashPassword_def hashSync_def)
  then show ?thesis by (simp add: v2_validateSession_def Let_def)
qed


text \<open>In-memory variant: the hash of the password is drawn again at login.\<close>

lemma v2_login_other_salt:
  assumes "find (\<lambda>u. v2_username u = name) (v2_users d) = Some u"
    and "passwordHash u = hashPassword L r pw" and "r1 \<noteq> r"
    and "lockedUntil u \<le> ms1 div 1000"
  shows "fst (v2_loginUser L r1 r2 ms1 ms2 d name pw) = Inl ''Invalid credentials''"
  using assms
  by (simp add: v2_loginUser_def Let_def hashPassword_def hashSync_def)

lemma v2_login_token:
  assumes "v2_loginUser L r1 r2 ms1 ms2 d name pw = (Inr (tok, b), d')"
  shows "\<exists>u. find (\<lambda>u. v2_username u = name) (v2_users d) = Some u \<and>
             passwordHash u = hashPassword L r1 pw \<and>
             tok = ''token_'' @ decimal (v2_id u) @ ''_'' @ decimal ms2"
  using assms
  by (auto simp: v2_loginUser_def Let_def v2_token_def split: option.splits if_splits)

lemma v2_register_any_password:
  assumes "name \<noteq> []" and "pw \<noteq> []" and "name \<notin> v2_username ` set (v2_users d)"
  shows "\<exists>d'. v2_register L r d name pw = (Inr (nextUserId d), d') \<and>
              length (v2_users d') = length (v2_users d) + 1"
  using assms
  by (auto simp: v2_register_def v2_createUser_def Let_def find_None_iff2 split: option.splits)

text \<open>In-memory variant: a username that is taken is refused, and the store is unchanged.\<close>

lemma v2_createUser_taken:
  assumes "name \<in> v2_username ` set (v2_users d)"
  shows "v2_createUser L r d name pw = (Inl ''User already exists'', d)"
  using assms by (auto simp: v2_createUser_def find_None_iff2 split: option.splits)

lemma v2_createUser_distinct:
  assumes "distinct (map v2_username (v2_users d))"
  shows "distinct (map v2_username (v2_users (snd (v2_createUser L r d name pw))))"
  using assms
  by (auto simp: v2_createUser_def Let_def find_None_iff2 split: option.splits)

text \<open>Java variant: the token of a login, and the outcome of the right password.\<close>

lemma j_login_token:
  assumes "j_loginUser L ms1 ms2 d name pw = (Inr (tok, b), d')"
  shows "\<exists>u. find (\<lambda>u. j_username u = name) (j_users d) = Some u \<and>
             tok = ''token_'' @ java_str (j_id u) @ ''_'' @ java_str ms2"
  using assms
  by (auto simp: j_loginUser_def Let_def split: option.splits if_splits)

lemma j_login_right_password:
  assumes "find (\<lambda>u. j_username u = name) (j_users d) = Some u"
    and "j_passwordHash u = j_hashPassword L pw" and "j_lockedUntil u \<le> ms1 sdiv 1000"
  shows "fst (j_loginUser L ms1 ms2 d name pw) =
           Inr (''token_'' @ java_str (j_id u) @ ''_'' @ java_str ms2, j_balance u)"
  using assms
  by (simp add: j_loginUser_def Let_def)

lemma j_createUser_any_password:
  assumes "name \<notin> j_username ` set (j_users d)"
  shows "\<exists>d'. j_createUser L d name pw = (Inr (j_nextUserId d), d') \<and>
              length (j_users d') = length (j_users d) + 1"
  using assms
  by (auto simp: j_createUser_def Let_def find_None_iff2 split: option.splits)

text \<open>File-backed variant: a short password is refused and nothing is stored.\<close>

lemma register_weak_password:
  assumes "length pw < 6"
  shows "\<exists>e. register L r now d name pw = (Inl (400, e), d)"
  using assms by (auto simp: register_def)

lemma register_weak_password_text:
  assumes "name \<noteq> []" and "pw \<noteq> []" and "length pw < 6"
  shows "register L r now d name pw = (Inl (400, ''Password must be at least 6 characters''), d)"
  using assms by (simp add: register_def)

lemma j_createUser_fresh:
  "j_createUser sample_libs j_init ''alice'' ''secret1'' = (Inr 1, j_alice_db)"
  by (simp add: j_createUser_def j_init_def j_alice_db_def j_hashPassword_def sample_libs_def jint_def)

lemma decimal_1: "decimal (Suc 0) = ''1''"
  by (simp add: decimal.simps)

lemma decimal_ms: "decimal 1700000000250 = ''1700000000250''"
  by (simp add: decimal.simps)

lemma v2_createUser_fresh:
  "v2_createUser sample_libs 7 v2_init ''alice'' ''secret1'' = (Inr 1, v2_alice_db)"
  by (simp add: v2_createUser_def v2_init_def v2_alice_db_def v2_alice_def hashPassword_def
        hashSync_def sample_libs_def)

text \<open>
  Claim C3 in the in-memory variant. \<open>alice\<close> registers with the password \<open>secret1\<close>;
  \<^verbatim>\<open>hashPassword\<close> draws salt 7. She logs in with the same password, the account not
  locked; \<^verbatim>\<open>hashPassword\<close> draws salt 8, the new hash differs from the stored one, and
  \<^verbatim>\<open>loginUser\<close> answers \<^verbatim>\<open>Invalid credentials\<close> and counts one failed attempt.
\<close>

theorem v2_login_right_password_fails:
  "v2_createUser sample_libs 7 v2_init ''alice'' ''secret1'' = (Inr 1, v2_alice_db) \<and>
   v2_loginUser sample_libs 8 9 1700000000000 1700000000250 v2_alice_db ''alice'' ''secret1'' =
     (Inl ''Invalid credentials'', v2_alice_db\<lparr>v2_users := [v2_alice\<lparr>failedAttempts := 1\<rparr>]\<rparr>)"
proof -
  have "v2_loginUser sample_libs 8 9 1700000000000 1700000000250 v2_alice_db ''alice'' ''secret1'' =
     (Inl ''Invalid credentials'', v2_alice_db\<lparr>v2_users := [v2_alice\<lparr>failedAttempts := 1\<rparr>]\<rparr>)"
    by (simp add: v2_loginUser_def v2_alice_db_def v2_alice_def v2_init_def
        hashPassword_def hashSync_def sample_libs_def Let_def)
  with v2_createUser_fresh show ?thesis by simp
qed

text \<open>
  Claim C7 in the in-memory variant. The route \<^verbatim>\<open>POST /register\<close> of appV2.js, asked to
  register \<open>bob\<close> with the three-character password \<open>abc\<close> on the empty store, answers
  with success and stores the user.
\<close>

theorem v2_register_short_password:
  "v2_register sample_libs 7 v2_init ''bob'' ''abc'' =
     (Inr 1,
      v2_init\<lparr>v2_users := [\<lparr>v2_id = 1, v2_username = ''bob'',
                              passwordHash = BcryptHash 12 7 ''abc'', v2_balance = 800,
                              failedAttempts = 0, lockedUntil = 0\<rparr>],
              nextUserId := 2\<rparr>)"
  by (simp add: v2_register_def v2_createUser_def v2_init_def hashPassword_def hashSync_def
        sample_libs_def)

lemma v2_login_same_salt:
  "v2_loginUser sample_libs 7 9 1700000000000 1700000000250 v2_alice_db ''alice'' ''secret1'' =
     (Inr (''token_1_1700000000250'', 800), v2_session_db)"
  by (simp add: v2_loginUser_def v2_alice_db_def v2_alice_def v2_init_def v2_session_db_def
        v2_token_def decimal_1 decimal_ms hashPassword_def hashSync_def sample_libs_def Let_def)


text \<open>
  Claim C9 in the Java variant. \<open>alice\<close> registers and logs in; the clock reads
  1700000000250 ms when the token is built. The token is
  \<^verbatim>\<open>token_1_1700000000250\<close>: her user id and the clock.
\<close>

theorem java_token_predictable:
  "j_createUser sample_libs j_init ''alice'' ''secret1'' = (Inr 1, j_alice_db) \<and>
   fst (j_loginUser sample_libs 1700000000000 1700000000250 j_alice_db ''alice'' ''secret1'') =
     Inr (''token_1_1700000000250'', 800)"
proof -
  have "fst (j_loginUser sample_libs 1700000000000 1700000000250 j_alice_db ''alice'' ''secret1'') =
     Inr (''token_1_1700000000250'', 800)"
    by (simp add: j_loginUser_def j_alice_db_def j_hashPassword_def signed_divide_int_def
        sample_libs_def java_str_def decimal_1 decimal_ms Let_def)
  with j_createUser_fresh show ?thesis by simp
qed

section \<open>Charges made at the same time\<close>

lemma processPayment_insufficient:
  assumes "distinct (map uid (users d))" and "u \<in> set (users d)" and "balance u < 110"
  shows "processPayment now d (uid u) = (Inl (JsError ''Insufficient funds'' []), d)"
proof -
  from findIndex_distinct[OF assms(1,2)] obtain i where
    "findIndex (\<lambda>x. uid x = uid u) (users d) = Some i" "users d ! i = u" by blast
  with assms(3) show ?thesis by (simp add: processPayment_def)
qed

lemma processPayment_sufficient:
  assumes "distinct (map uid (users d))" and "u \<in> set (users d)" and "110 \<le> balance u"
  shows "processPayment now d (uid u) =
     (Inr \<lparr>paymentId = lastPaymentId d + 1, r_amount = 110, r_balanceBefore = balance u,
            r_balanceAfter = balance u - 110\<rparr>,
      d\<lparr>users := map (\<lambda>x. if uid x = uid u then x\<lparr>balance := balance x - 110\<rparr> else x) (users d),
        payments := payments d @
          [\<lparr>pid = lastPaymentId d + 1, p_user_id = uid u, amount = 110,
            balance_before = balance u, balance_after = balance u - 110, p_created_at = now\<rparr>],
        lastPaymentId := lastPaymentId d + 1\<rparr>)"
proof -
  from findIndex_distinct[OF assms(1,2)] obtain i where
    i: "findIndex (\<lambda>x. uid x = uid u) (users d) = Some i" "users d ! i = u" "i < length (users d)"
    by blast
  have "(users d)[i := u\<lparr>balance := balance u - 110\<rparr>] =
        map (\<lambda>x. if uid x = uid u then x\<lparr>balance := balance x - 110\<rparr> else x) (users d)"
    using list_update_distinct[OF assms(1) i(3), of "\<lambda>x. x\<lparr>balance := balance x - 110\<rparr>"] i(2)
    by simp
  with i assms(3) show ?thesis by (simp add: processPayment_def Let_def)
qed

lemma charge_times_insufficient:
  assumes "distinct (map uid (users d))" and "u \<in> set (users d)" and "balance u < 110"
  shows "charge_times n now d (uid u) = (replicate n (Inl (JsError ''Insufficient funds'' [])), d)"
  by (induction n) (simp_all add: processPayment_insufficient[OF assms])

text \<open>
  File-backed variant: of \<open>n + 1\<close> charges made at once against a balance of exactly 110,
  the first succeeds and every other one fails; the balance ends at 0 and one payment
  is recorded.
\<close>

lemma charge_times_one_succeeds:
  assumes "distinct (map uid (users d))" and "u \<in> set (users d)" and "balance u = 110"
  shows "charge_times (Suc n) now d (uid u) =
     (Inr \<lparr>paymentId = lastPaymentId d + 1, r_amount = 110, r_balanceBefore = 110,
            r_balanceAfter = 0\<rparr> # replicate n (Inl (JsError ''Insufficient funds'' [])),
      d\<lparr>users := map (\<lambda>x. if uid x = uid u then x\<lparr>balance := 0\<rparr> else x) (users d),
        payments := payments d @
          [\<lparr>pid = lastPaymentId d + 1, p_user_id = uid u, amount = 110,
            balance_before = 110, balance_after = 0, p_created_at = now\<rparr>],
        lastPaymentId := lastPaymentId d + 1\<rparr>)"
proof -
  let ?us = "map (\<lambda>x. if uid x = uid u then x\<lparr>balance := 0\<rparr> else x) (users d)"
  let ?d1 = "d\<lparr>users := ?us,
        payments := payments d @
          [\<lparr>pid = lastPaymentId d + 1, p_user_id = uid u, amount = 110,
            balance_before = 110, balance_after = 0, p_created_at = now\<rparr>],
        lastPaymentId := lastPaymentId d + 1\<rparr>"
  have same: "map (\<lambda>x. if uid x = uid u then x\<lparr>balance := balance x - 110\<rparr> else x) (users d) = ?us"
    using assms by (auto simp: distinct_map inj_on_def)
  have first: "processPayment now d (uid u) =
     (Inr \<lparr>paymentId = lastPaymentId d + 1, r_amount = 110, r_balanceBefore = 110,
            r_balanceAfter = 0\<rparr>, ?d1)"
    using processPayment_sufficient[OF assms(1,2), of now] assms(3) same by simp
  have ids: "uid \<circ> (\<lambda>x. if uid x = uid u then x\<lparr>balance := 0\<rparr> else x) = uid"
    by (auto simp: fun_eq_iff)
  have d1: "distinct (map uid (users ?d1))" using assms(1) by (simp add: ids)
  have u1: "u\<lparr>balance := 0\<rparr> \<in> set (users ?d1)" using assms(2) by (auto simp: image_iff)
  from charge_times_insufficient[OF d1 u1, of n now]
  have "charge_times n now ?d1 (uid u) = (replicate n (Inl (JsError ''Insufficient funds'' [])), ?d1)"
    by simp
  with first show ?thesis by simp
qed

lemma fb_one_after_the_other:
  "snd (fb_run [0, 0, 0, 1, 1, 1] (fb_sample, [ReadUser ''u1'' ''p1'', ReadUser ''u1'' ''p2''])) =
      [Returned (FbPayment ''p1'' 110 110 0), Returned (FbError ''Insufficient funds'')]"
  by (simp add: fb_sample_def fb_alice_def)

text \<open>
  The same two calls against a balance of 140, which is what six charges leave of 800:
  one amount is taken off, two payments are recorded.
\<close>

lemma fb_double_charge_140:
  "fb_run [0, 1, 0, 0, 1, 1]
     (fb_sample\<lparr>fb_users := [(''u1'', fb_alice\<lparr>fb_balance := 140\<rparr>)]\<rparr>,
      [ReadUser ''u1'' ''p1'', ReadUser ''u1'' ''p2'']) =
     (\<lparr>fb_users = [(''u1'', fb_alice\<lparr>fb_balance := 30\<rparr>)],
       fb_payments =
         [(''p1'', \<lparr>fp_id = ''p1'', fp_userId = ''u1'', fp_amount = 110,
                    fp_balanceBefore = 140, fp_balanceAfter = 30\<rparr>),
          (''p2'', \<lparr>fp_id = ''p2'', fp_userId = ''u1'', fp_amount = 110,
                    fp_balanceBefore = 140, fp_balanceAfter = 30\<rparr>)]\<rparr>,
      [Returned (FbPayment ''p1'' 110 140 30), Returned (FbPayment ''p2'' 110 140 30)])"
  by (simp add: fb_sample_def fb_alice_def)

text \<open>Remote-store variant: no schedule makes a balance negative.\<close>

lemma map_entry_nonneg:
  "list_all (\<lambda>(i, u). 0 \<le> fb_balance u) xs \<Longrightarrow> 0 \<le> b' \<Longrightarrow>
   list_all (\<lambda>(i, u). 0 \<le> fb_balance u) (AList.map_entry i (\<lambda>u. u\<lparr>fb_balance := b'\<rparr>) xs)"
  by (induction xs) auto

lemma fb_step_nonneg:
  assumes "fb_nonneg st" and "fb_pending_ok c"
  shows "fb_nonneg (fst (fb_step st c)) \<and> fb_pending_ok (snd (fb_step st c))"
proof (cases c)
  case (ReadUser i k)
  with assms show ?thesis
    by (auto simp: fb_pending_ok_def fb_nonneg_def split: option.splits)
next
  case (UpdateBalance i k b b')
  with assms show ?thesis
    by (simp add: fb_pending_ok_def fb_nonneg_def map_entry_nonneg)
next
  case (SetPayment i k b b')
  with assms show ?thesis
    by (simp add: fb_pending_ok_def fb_nonneg_def)
next
  case (Returned res)
  with assms show ?thesis by simp
qed

lemma fb_run_nonneg:
  assumes "fb_nonneg st" and "list_all fb_pending_ok calls"
  shows "fb_nonneg (fst (fb_run sched (st, calls))) \<and>
         list_all fb_pending_ok (snd (fb_run sched (st, calls)))"
  using assms
proof (induction sched arbitrary: st calls)
  case Nil
  then show ?case by simp
next
  case (Cons i sched)
  show ?case
  proof (cases "i < length calls")
    case True
    obtain st' c' where step: "fb_step st (calls ! i) = (st', c')" by (cases "fb_step st (calls ! i)")
    from Cons.prems(2) True have "fb_pending_ok (calls ! i)"
      by (simp add: list_all_length)
    from fb_step_nonneg[OF Cons.prems(1) this] step
    have ok: "fb_nonneg st'" "fb_pending_ok c'" by simp_all
    from Cons.prems(2) ok(2) have "list_all fb_pending_ok (calls[i := c'])"
      by (auto simp: list_all_iff dest!: set_update_subset_insert[THEN subsetD])
    from Cons.IH[OF ok(1) this] True step show ?thesis by simp
  next
    case False
    with Cons show ?thesis by simp
  qed
qed

text \<open>
  Claim C2 in the remote-store variant. Two calls of \<^verbatim>\<open>processPayment\<close> for a user whose
  balance is 110 are in flight. The first reads the balance, then the second reads it,
  before either has written. Both find 110 sufficient, both write 0, both store a
  payment with balance 110 before and 0 after, and both return success.
\<close>

theorem fb_double_charge:
  "fb_run [0, 1, 0, 0, 1, 1] (fb_sample, [ReadUser ''u1'' ''p1'', ReadUser ''u1'' ''p2'']) =
     (\<lparr>fb_users = [(''u1'', fb_alice\<lparr>fb_balance := 0\<rparr>)],
       fb_payments =
         [(''p1'', \<lparr>fp_id = ''p1'', fp_userId = ''u1'', fp_amount = 110,
                    fp_balanceBefore = 110, fp_balanceAfter = 0\<rparr>),
          (''p2'', \<lparr>fp_id = ''p2'', fp_userId = ''u1'', fp_amount = 110,
                    fp_balanceBefore = 110, fp_balanceAfter = 0\<rparr>)]\<rparr>,
      [Returned (FbPayment ''p1'' 110 110 0), Returned (FbPayment ''p2'' 110 110 0)])"
  by (simp add: fb_sample_def fb_alice_def)

end
